theory Spec2Isabelle
  imports Main "HOL-Library.AList" "HOL-Library.Multiset" "HOL-Library.Sublist"
begin

section \<open>Strings and integers as the Python source uses them\<close>

text \<open>
  Python strings are modelled as \<^typ>\<open>string\<close>, one \<^typ>\<open>char\<close> per code point
  (code points up to 255 are representable). Python integers are unbounded and are
  modelled as \<^typ>\<open>int\<close>.
\<close>

definition digit_char :: "nat \<Rightarrow> char" where
  "digit_char d = ''0123456789'' ! d"

text \<open>\<open>str(n)\<close> for a non-negative integer: decimal digits, no leading zero.\<close>

fun str_nat :: "nat \<Rightarrow> string" where
  "str_nat n = (if n < 10 then [digit_char n] else str_nat (n div 10) @ [digit_char (n mod 10)])"

declare str_nat.simps [simp del]

text \<open>\<open>str(i)\<close>, which is what an f-string \<open>{i}\<close> inserts for an integer.\<close>

definition str_int :: "int \<Rightarrow> string" where
  "str_int i = (if i < 0 then CHR ''-'' # str_nat (nat (- i)) else str_nat (nat i))"

section \<open>Resolution candidates: \<open>unique_sorted_heights\<close>\<close>

text \<open>
  A format descriptor is a dictionary of which only the key \<open>height\<close> is read.
  \<open>height = Some h\<close> stands for an entry whose value is an instance of \<open>int\<close>
  (Python's \<open>True\<close> and \<open>False\<close> are the integers 1 and 0); \<open>None\<close> stands for
  a missing key and for every value that is not an \<open>int\<close> (\<open>None\<close>, a float, a string).
\<close>

record format =
  height :: "int option"

text \<open>
  \<^verbatim>\<open>
  heights = {f.get("height") for f in formats if isinstance(f.get("height"), int)}
  heights = [h for h in heights if h and h >= 240]
  heights.sort()
  \<close>
  The set comprehension removes duplicates; the iteration order of the set is not
  specified, and the final sort makes the result independent of it.
\<close>

definition unique_sorted_heights :: "format list \<Rightarrow> int list" where
  "unique_sorted_heights formats =
     (let heights = remdups (List.map_filter height formats);
          heights = filter (\<lambda>h. h \<noteq> 0 \<and> h \<ge> 240) heights
      in sort heights)"

section \<open>Format expression: \<open>build_format_string\<close>\<close>

text \<open>
  \<^verbatim>\<open>
  def build_format_string(height: int | None) -> str:
      if not height:
          return "bestvideo*+bestaudio/best"
      return f"bestvideo*[height<=?{height}]+bestaudio/best[height<=?{height}]"
  \<close>
  \<open>not height\<close> holds for \<open>None\<close> and for the integer 0.
\<close>

definition build_format_string :: "int option \<Rightarrow> string" where
  "build_format_string h =
     (case h of
        None \<Rightarrow> ''bestvideo*+bestaudio/best''
      | Some n \<Rightarrow>
          if n = 0 then ''bestvideo*+bestaudio/best''
          else ''bestvideo*[height<=?'' @ str_int n @ '']+bestaudio/best[height<=?''
                 @ str_int n @ '']'')"

text \<open>
  \<open>s.split(sep, maxsplit)\<close> for a one-character separator: the string is cut at the
  first \<open>maxsplit\<close> occurrences of the separator, the rest stays in the last field.
\<close>

fun split_max :: "char \<Rightarrow> nat \<Rightarrow> string \<Rightarrow> string list" where
  "split_max sep 0 s = [s]"
| "split_max sep (Suc n) s =
     (if sep \<in> set s
      then takeWhile (\<lambda>c. c \<noteq> sep) s # split_max sep n (tl (dropWhile (\<lambda>c. c \<noteq> sep) s))
      else [s])"

text \<open>
  How the extractor reads a format expression: \<open>/\<close> separates alternatives that are
  tried from left to right, \<open>+\<close> joins the streams that are merged, and a selector may
  carry a filter in square brackets. These three definitions only take an expression
  apart; they are used to state what an expression requests.
\<close>

definition alternatives :: "string \<Rightarrow> string list" where
  "alternatives e = split_max (CHR ''/'') (length e) e"

definition merged_streams :: "string \<Rightarrow> string list" where
  "merged_streams a = split_max (CHR ''+'') (length a) a"

definition selector_filter :: "string \<Rightarrow> string \<times> string" where
  "selector_filter sel =
     (takeWhile (\<lambda>c. c \<noteq> CHR ''['') sel, dropWhile (\<lambda>c. c \<noteq> CHR ''['') sel)"

section \<open>Parsing the mode of a callback payload\<close>

text \<open>
  \<open>int(s)\<close> on a string, base 10: whitespace around the literal is skipped, one sign is
  allowed, the digits may be grouped by single underscores, and a literal of more than
  4300 digits is refused (the interpreter's default limit). A refusal is Python's
  \<open>ValueError\<close>, here \<open>None\<close>. Among the code points up to 255 the whitespace
  characters are 9 to 13, 32, 133 and 160, and the decimal digits are \<open>0\<close> to \<open>9\<close>.
\<close>

definition py_isspace :: "char \<Rightarrow> bool" where
  "py_isspace c = ((of_char c :: nat) \<in> {9, 10, 11, 12, 13, 32, 133, 160})"

definition py_isdigit :: "char \<Rightarrow> bool" where
  "py_isdigit c = (48 \<le> (of_char c :: nat) \<and> (of_char c :: nat) \<le> 57)"

definition digit_val :: "char \<Rightarrow> nat" where
  "digit_val c = of_char c - 48"

fun digits_ok :: "string \<Rightarrow> bool" where
  "digits_ok [] = False"
| "digits_ok [c] = py_isdigit c"
| "digits_ok (c # d # cs) =
     (py_isdigit c \<and> (if d = CHR ''_'' then digits_ok cs else digits_ok (d # cs)))"

definition strip :: "string \<Rightarrow> string" where
  "strip s = rev (dropWhile py_isspace (rev (dropWhile py_isspace s)))"

definition py_int :: "string \<Rightarrow> int option" where
  "py_int s =
     (let t = strip s;
          neg = (t \<noteq> [] \<and> hd t = CHR ''-'');
          body = (if t \<noteq> [] \<and> (hd t = CHR ''-'' \<or> hd t = CHR ''+'') then tl t else t);
          ds = filter py_isdigit body
      in if digits_ok body \<and> length ds \<le> 4300
         then Some ((if neg then - 1 else 1) * int (foldl (\<lambda>a c. 10 * a + digit_val c) 0 ds))
         else None)"

text \<open>
  \<^verbatim>\<open>
  if mode == "best":
      chosen_height = None
  elif mode.startswith("h"):
      try:
          chosen_height = int(mode[1:])
      except ValueError:
          chosen_height = None
  else:
      chosen_height = None
  \<close>
\<close>

definition chosen_height :: "string \<Rightarrow> int option" where
  "chosen_height mode =
     (if mode = ''best'' then None
      else if prefix ''h'' mode then
        (case py_int (drop 1 mode) of Some n \<Rightarrow> Some n | None \<Rightarrow> None)
      else None)"

section \<open>The job registry\<close>

text \<open>
  A scratch directory is a \<open>TemporaryDirectory\<close> object; it is identified by a number.
  A job is the dictionary \<open>{"url": str, "tmpdir": TemporaryDirectory}\<close>. The registry
  \<open>user_data["dl_store"]\<close> is a Python dictionary, which keeps its keys in insertion
  order: an association list, where assigning to a key that is present replaces the
  value in place and assigning to a new key appends. A registry that was never created
  is the empty list (\<open>setdefault\<close> and \<open>or {}\<close> in the source treat it so).
\<close>

type_synonym token = string

type_synonym tmpdir = nat

record job =
  url :: string
  tmpdir :: tmpdir

type_synonym store = "(token \<times> job) list"

definition dict_set :: "'k \<Rightarrow> 'v \<Rightarrow> ('k \<times> 'v) list \<Rightarrow> ('k \<times> 'v) list" where
  "dict_set k v d = AList.update k v d"

text \<open>\<open>d.pop(k, None)\<close>: the value of the key, if any, and the dictionary without it.\<close>

definition dict_pop :: "('k \<times> 'v) list \<Rightarrow> 'k \<Rightarrow> 'v option \<times> ('k \<times> 'v) list" where
  "dict_pop d k = (map_of d k, AList.delete k d)"

text \<open>
  The eviction loop of \<open>store_new_job\<close>, over the keys chosen before the loop starts:
  \<^verbatim>\<open>
  for k in list(store.keys())[: len(store) - 50]:
      job = store.pop(k, None)
      try:
          if job and "tmpdir" in job:
              job["tmpdir"].cleanup()
      except Exception:
          pass
  \<close>
  The result lists the directories whose \<open>cleanup()\<close> was called, in order. An
  exception of \<open>cleanup()\<close> is caught inside the loop body, so the loop goes on alike.
\<close>

fun evict :: "store \<Rightarrow> token list \<Rightarrow> store \<times> tmpdir list" where
  "evict store [] = (store, [])"
| "evict store (k # ks) =
     (case dict_pop store k of
        (None, store') \<Rightarrow> evict store' ks
      | (Some j, store') \<Rightarrow>
          (let (store'', released) = evict store' ks in (store'', tmpdir j # released)))"

text \<open>
  \<open>store_new_job\<close>; the token is the value that \<open>secrets.token_urlsafe(8)\<close> returned.
  The result is the registry, the directories released by the eviction, and the token.
\<close>

definition store_new_job :: "store \<Rightarrow> token \<Rightarrow> string \<Rightarrow> tmpdir \<Rightarrow> store \<times> tmpdir list \<times> token" where
  "store_new_job store token u d =
     (let store1 = dict_set token \<lparr>url = u, tmpdir = d\<rparr> store in
      if length store1 > 50
      then (let (store2, released) = evict store1 (take (length store1 - 50) (map fst store1))
            in (store2, released, token))
      else (store1, [], token))"

definition pop_job :: "store \<Rightarrow> token \<Rightarrow> job option \<times> store" where
  "pop_job store token = dict_pop store token"

text \<open>A sequence of calls of \<open>store_new_job\<close>, each with its token, URL and directory.\<close>

fun store_jobs :: "store \<Rightarrow> (token \<times> string \<times> tmpdir) list \<Rightarrow> store \<times> tmpdir list" where
  "store_jobs store [] = (store, [])"
| "store_jobs store ((t, u, d) # rest) =
     (let (store1, released1, _) = store_new_job store t u d;
          (store2, released2) = store_jobs store1 rest
      in (store2, released1 @ released2))"

definition new_job :: "token \<times> string \<times> tmpdir \<Rightarrow> token \<times> job" where
  "new_job r = (fst r, \<lparr>url = fst (snd r), tmpdir = snd (snd r)\<rparr>)"

text \<open>
  The filter that \<open>build_format_string\<close> writes after a selector: height at most \<open>n\<close>,
  where \<open>?\<close> also admits a stream whose height is unknown.
\<close>

definition height_filter :: "int \<Rightarrow> string" where
  "height_filter n = ''[height<=?'' @ str_int n @ '']''"

text \<open>
  The specification's reading of the expression for a height \<open>h\<close>, in its words: the
  video and the audio stream are both limited to \<open>h\<close>, and the fallback alternative is
  the unconstrained selector \<open>best\<close>.
\<close>

definition spec_height_expression :: "int \<Rightarrow> string \<Rightarrow> bool" where
  "spec_height_expression h e =
     (case alternatives e of
        [main, fallback] \<Rightarrow>
          (case merged_streams main of
             [video, audio] \<Rightarrow>
               snd (selector_filter video) = height_filter h
               \<and> snd (selector_filter audio) = height_filter h
           | _ \<Rightarrow> False)
          \<and> selector_filter fallback = (''best'', [])
      | _ \<Rightarrow> False)"

text \<open>Fifty-two insertions under the tokens \<open>"0"\<close> to \<open>"51"\<close>, used as a concrete run.\<close>

definition fifty_two_jobs :: "(token \<times> string \<times> tmpdir) list" where
  "fifty_two_jobs = map (\<lambda>i. (str_nat i, ''https://example.com/v'', i)) [0..<52]"

section \<open>The resolution menu\<close>

text \<open>
  \<^verbatim>\<open>
  wanted = [240, 360, 480, 720, 1080, 1440, 2160]
  display_heights = [h for h in wanted if h in heights]
  if not display_heights:
      display_heights = heights[-3:] if len(heights) > 3 else heights
  \<close>
\<close>

definition wanted :: "int list" where
  "wanted = [240, 360, 480, 720, 1080, 1440, 2160]"

definition display_heights :: "int list \<Rightarrow> int list" where
  "display_heights heights =
     (let display = filter (\<lambda>h. h \<in> set heights) wanted in
      if display = [] then (if length heights > 3 then drop (length heights - 3) heights else heights)
      else display)"

text \<open>
  A button carries its caption and its callback payload. The caption is \<open>"{h}p"\<close> for a
  height and a fixed Russian word meaning "best" for the last button; the payloads are
  \<open>"dl|{token}|h{h}"\<close> and \<open>"dl|{token}|best"\<close>.
\<close>

datatype caption = HeightCaption int | BestCaption

record button =
  caption :: caption
  callback_data :: string

definition height_button :: "token \<Rightarrow> int \<Rightarrow> button" where
  "height_button token h =
     \<lparr>caption = HeightCaption h, callback_data = ''dl|'' @ token @ ''|h'' @ str_int h\<rparr>"

definition best_button :: "token \<Rightarrow> button" where
  "best_button token = \<lparr>caption = BestCaption, callback_data = ''dl|'' @ token @ ''|best''\<rparr>"

text \<open>
  The loop that fills rows of three buttons; \<open>row\<close> is the row being filled:
  \<^verbatim>\<open>
  for h in display_heights:
      row.append(InlineKeyboardButton(text=f"{h}p", callback_data=f"dl|{token}|h{h}"))
      if len(row) == 3:
          buttons.append(row)
          row = []
  if row:
      buttons.append(row)
  \<close>
\<close>

fun button_rows :: "token \<Rightarrow> int list \<Rightarrow> button list \<Rightarrow> button list list" where
  "button_rows token [] row = (if row \<noteq> [] then [row] else [])"
| "button_rows token (h # hs) row =
     (let row' = row @ [height_button token h] in
      if length row' = 3 then row' # button_rows token hs [] else button_rows token hs row')"

definition build_buttons :: "token \<Rightarrow> int list \<Rightarrow> button list list" where
  "build_buttons token heights =
     button_rows token (display_heights heights) [] @ [[best_button token]]"

section \<open>What the handlers do to the outside world\<close>

text \<open>
  The texts shown to the user, one constructor for each text of the source (the texts
  themselves are Russian and are not reproduced).
\<close>

datatype message =
    NeedLink | Analysing | ProbeFailed | Menu "button list list" | AnalysisError
  | InvalidButtonData | SelectionExpired | InternalError | Downloading
  | NoData | FileNotFound | Done | SendFailed | DownloadFailed

text \<open>
  The calls a handler makes, in the order it makes them: \<open>query.answer()\<close>,
  \<open>reply_text\<close>, \<open>edit_text\<close> or \<open>edit_message_text\<close>, \<open>TemporaryDirectory()\<close>, the extractor
  without and with download (URL, format expression, directory), \<open>cleanup()\<close> of a
  directory, and the calls of the delivery procedure (file name and caption).
\<close>

datatype event =
    Answer | Reply message | Edit message
  | MkTmp tmpdir | Probe string tmpdir | Fetch string string tmpdir | Cleanup tmpdir
  | SendAction | SendVideo string string | SendDocument string string | Sleep nat

text \<open>How a handler ends: it returns, or an exception leaves it.\<close>

datatype status = Returned | Raised

section \<open>The delivery procedure\<close>

text \<open>What one attempt to send does: it succeeds, raises \<open>TimedOut\<close>, or raises another exception.\<close>

datatype outcome = Success | TimedOut | OtherFailure

text \<open>
  The first loop of \<open>_send_with_retries_as_video_or_doc\<close>, over the attempts that are left;
  the result says whether the video was sent:
  \<^verbatim>\<open>
  for attempt in range(3):
      try:
          with file_path.open("rb") as f:
              return await message.reply_video(...)
      except TimedOut:
          if attempt == 2:
              break
          await asyncio.sleep(2 * (attempt + 1))
      except Exception:
          break
  \<close>
\<close>

fun send_video_attempts ::
  "(nat \<Rightarrow> outcome) \<Rightarrow> string \<Rightarrow> string \<Rightarrow> nat list \<Rightarrow> bool \<times> event list" where
  "send_video_attempts video f cap [] = (False, [])"
| "send_video_attempts video f cap (attempt # rest) =
     (case video attempt of
        Success \<Rightarrow> (True, [SendVideo f cap])
      | TimedOut \<Rightarrow>
          if attempt = 2 then (False, [SendVideo f cap])
          else (let (sent, evs) = send_video_attempts video f cap rest
                in (sent, SendVideo f cap # Sleep (2 * (attempt + 1)) # evs))
      | OtherFailure \<Rightarrow> (False, [SendVideo f cap]))"

text \<open>
  The second loop; an exception other than \<open>TimedOut\<close> is not caught there:
  \<^verbatim>\<open>
  for attempt in range(3):
      try:
          with file_path.open("rb") as f:
              return await message.reply_document(...)
      except TimedOut:
          if attempt == 2:
              raise
          await asyncio.sleep(2 * (attempt + 1))
  \<close>
  The result is the exception that leaves the procedure, if any.
\<close>

fun send_document_attempts ::
  "(nat \<Rightarrow> outcome) \<Rightarrow> string \<Rightarrow> string \<Rightarrow> nat list \<Rightarrow> outcome \<times> event list" where
  "send_document_attempts doc f cap [] = (Success, [])"
| "send_document_attempts doc f cap (attempt # rest) =
     (case doc attempt of
        Success \<Rightarrow> (Success, [SendDocument f cap])
      | TimedOut \<Rightarrow>
          if attempt = 2 then (TimedOut, [SendDocument f cap])
          else (let (r, evs) = send_document_attempts doc f cap rest
                in (r, SendDocument f cap # Sleep (2 * (attempt + 1)) # evs))
      | OtherFailure \<Rightarrow> (OtherFailure, [SendDocument f cap]))"

text \<open>
  The whole procedure: the upload indicator (its failure is swallowed), the video
  attempts, then the document attempts. \<open>Success\<close> means the procedure returned;
  \<open>TimedOut\<close> and \<open>OtherFailure\<close> are the exception it raised.
\<close>

definition send_with_retries_as_video_or_doc ::
  "(nat \<Rightarrow> outcome) \<Rightarrow> (nat \<Rightarrow> outcome) \<Rightarrow> string \<Rightarrow> string \<Rightarrow> outcome \<times> event list" where
  "send_with_retries_as_video_or_doc video doc f cap =
     (let (sent, evs) = send_video_attempts video f cap [0, 1, 2] in
      if sent then (Success, SendAction # evs)
      else (let (r, evs') = send_document_attempts doc f cap [0, 1, 2]
            in (r, SendAction # evs @ evs')))"

section \<open>The two handlers\<close>

text \<open>
  The dictionary that the extractor returns. Only these keys are read; an empty list or
  string stands for a key that is missing or whose value is falsy, which the source
  treats alike (\<open>info.get("formats") or []\<close>, \<open>info.get("id") or ...\<close>).
\<close>

datatype info =
  Info (entries: "info list") (formats: "format list") (ident: string)
       (display_id: string) (title: string)

text \<open>
  \<^verbatim>\<open>
  if "entries" in info and isinstance(info["entries"], list) and info["entries"]:
      info = info["entries"][0]
  \<close>
\<close>

definition first_entry :: "info \<Rightarrow> info" where
  "first_entry i = (case entries i of [] \<Rightarrow> i | e # _ \<Rightarrow> e)"

text \<open>The fallback title of the source, a Russian word meaning "video".\<close>

definition default_title :: string where
  "default_title = ''Video''"

text \<open>
  \<open>pick_filename_from_dir\<close>, on the names of the files in the directory:
  \<^verbatim>\<open>
  files = list(target_dir.iterdir())
  if not files:
      return None
  if media_id:
      for p in files:
          if media_id in p.name:
              return p
  return files[0]
  \<close>
\<close>

definition pick_filename_from_dir :: "string list \<Rightarrow> string \<Rightarrow> string option" where
  "pick_filename_from_dir files media_id =
     (case files of
        [] \<Rightarrow> None
      | first # _ \<Rightarrow>
          if media_id \<noteq> [] then
            (case find (\<lambda>p. sublist media_id p) files of Some p \<Rightarrow> Some p | None \<Rightarrow> Some first)
          else Some first)"

text \<open>
  What the outside world answers during one run of a handler. The calls to the chat
  platform and to the extractor can raise; which of them do is part of the environment.
  \<open>extractor\<close> is the result of the one extractor call of the run: \<open>None\<close> if it raises,
  \<open>Some None\<close> if it returns nothing, \<open>Some (Some i)\<close> if it returns the dictionary \<open>i\<close>.
\<close>

record env =
  answer_ok :: bool
  reply_ok :: "message \<Rightarrow> bool"
  edit_ok :: "message \<Rightarrow> bool"
  cleanup_ok :: bool
  extractor :: "info option option"
  fresh_tmpdir :: tmpdir
  fresh_token :: token
  dir_files :: "string list"
  file_exists :: bool
  video_out :: "nat \<Rightarrow> outcome"
  doc_out :: "nat \<Rightarrow> outcome"

text \<open>
  The \<open>except Exception\<close> block of \<open>handle_text\<close>; neither call is protected:
  \<^verbatim>\<open>
  await status.edit_text(f"... {e}")
  tmpdir.cleanup()
  \<close>
\<close>

definition analysis_failed :: "env \<Rightarrow> tmpdir \<Rightarrow> status \<times> event list" where
  "analysis_failed e d =
     (if \<not> edit_ok e AnalysisError then (Raised, [Edit AnalysisError])
      else (if cleanup_ok e then Returned else Raised, [Edit AnalysisError, Cleanup d]))"

text \<open>
  What arrives at \<open>handle_text\<close>: an update without a message, a message in which
  \<open>extract_first_url\<close> finds no URL, or a message with the URL it finds.
\<close>

datatype inbound = NoMessage | NoUrl | Url string

text \<open>
  \<open>handle_text\<close>. The directory is created before the \<open>try\<close>; every exception inside
  the \<open>try\<close> leads to the \<open>except\<close> block above.
\<close>

definition handle_text :: "env \<Rightarrow> store \<Rightarrow> inbound \<Rightarrow> store \<times> status \<times> event list" where
  "handle_text e store msg =
     (case msg of
        NoMessage \<Rightarrow> (store, Returned, [])
      | NoUrl \<Rightarrow> (store, if reply_ok e NeedLink then Returned else Raised, [Reply NeedLink])
      | Url u \<Rightarrow>
          if \<not> reply_ok e Analysing then (store, Raised, [Reply Analysing])
          else
            (let d = fresh_tmpdir e;
                 pre = [Reply Analysing, MkTmp d, Probe u d]
             in case extractor e of
                  None \<Rightarrow>
                    (let (st, evs) = analysis_failed e d in (store, st, pre @ evs))
                | Some None \<Rightarrow>
                    if \<not> edit_ok e ProbeFailed then
                      (let (st, evs) = analysis_failed e d
                       in (store, st, pre @ [Edit ProbeFailed] @ evs))
                    else if \<not> cleanup_ok e then
                      (let (st, evs) = analysis_failed e d
                       in (store, st, pre @ [Edit ProbeFailed, Cleanup d] @ evs))
                    else (store, Returned, pre @ [Edit ProbeFailed, Cleanup d])
                | Some (Some i) \<Rightarrow>
                    (let i' = first_entry i;
                         heights = unique_sorted_heights (formats i');
                         (store', released, token) = store_new_job store (fresh_token e) u d;
                         menu = Menu (build_buttons token heights);
                         evs = pre @ map Cleanup released @ [Edit menu]
                     in if edit_ok e menu then (store', Returned, evs)
                        else (let (st, evs') = analysis_failed e d
                              in (store', st, evs @ evs')))))"

text \<open>
  The inner \<open>try\<close> of \<open>on_download_choice\<close> with its handler, and the outer handler
  behind it, whose own call is protected:
  \<^verbatim>\<open>
  try:
      await _send_with_retries_as_video_or_doc(query.message, file_path, caption)
      await query.edit_message_text("... done")
  except Exception as e_send:
      await query.edit_message_text(f"... {e_send}")
  \<close>
\<close>

definition deliver_and_report :: "env \<Rightarrow> string \<Rightarrow> string \<Rightarrow> event list" where
  "deliver_and_report e f cap =
     (let (r, evs) = send_with_retries_as_video_or_doc (video_out e) (doc_out e) f cap;
          failed = Edit SendFailed # (if edit_ok e SendFailed then [] else [Edit DownloadFailed])
      in if r = Success then
           evs @ Edit Done # (if edit_ok e Done then [] else failed)
         else evs @ failed)"

text \<open>
  The body of the outer \<open>try\<close> of \<open>on_download_choice\<close>, from \<open>build_format_string\<close> to the
  report, together with its \<open>except Exception\<close> block. No exception leaves it.
\<close>

definition fetch_and_send :: "env \<Rightarrow> string \<Rightarrow> tmpdir \<Rightarrow> int option \<Rightarrow> event list" where
  "fetch_and_send e u d chosen =
     (let fmt = build_format_string chosen;
          caught = (\<lambda>m. Edit m # (if edit_ok e m then [] else [Edit DownloadFailed]))
      in case extractor e of
           None \<Rightarrow> [Fetch u fmt d, Edit DownloadFailed]
         | Some None \<Rightarrow> Fetch u fmt d # caught NoData
         | Some (Some i) \<Rightarrow>
             (let i' = first_entry i;
                  media_id = (if ident i' \<noteq> [] then ident i' else display_id i')
              in case pick_filename_from_dir (dir_files e) media_id of
                   None \<Rightarrow> Fetch u fmt d # caught FileNotFound
                 | Some f \<Rightarrow>
                     if \<not> file_exists e then Fetch u fmt d # caught FileNotFound
                     else Fetch u fmt d #
                       deliver_and_report e f
                         (take 900 (if title i' \<noteq> [] then title i' else default_title))))"

text \<open>
  \<open>on_download_choice\<close>. The argument is \<open>None\<close> when the update has no callback query,
  and otherwise the query's \<open>data\<close>, which may itself be \<open>None\<close>. The status message
  "downloading" is sent before the \<open>try\<close>; the \<open>finally\<close> block calls \<open>cleanup()\<close> and
  swallows its exception.
\<close>

definition on_download_choice ::
  "env \<Rightarrow> store \<Rightarrow> string option option \<Rightarrow> store \<times> status \<times> event list" where
  "on_download_choice e store query =
     (case query of
        None \<Rightarrow> (store, Returned, [])
      | Some qdata \<Rightarrow>
          if \<not> answer_ok e then (store, Raised, [Answer])
          else
            (case split_max (CHR ''|'') 2 (case qdata of None \<Rightarrow> [] | Some s \<Rightarrow> s) of
               [tag, token, mode] \<Rightarrow>
                 if tag \<noteq> ''dl'' then
                   (store, if edit_ok e InvalidButtonData then Returned else Raised,
                    [Answer, Edit InvalidButtonData])
                 else
                   (case pop_job store token of
                      (None, store') \<Rightarrow>
                        (store', if edit_ok e SelectionExpired then Returned else Raised,
                         [Answer, Edit SelectionExpired])
                    | (Some j, store') \<Rightarrow>
                        if url j = [] then
                          (if edit_ok e InternalError
                           then (store', Returned, [Answer, Edit InternalError, Cleanup (tmpdir j)])
                           else (store', Raised, [Answer, Edit InternalError]))
                        else if \<not> edit_ok e Downloading then
                          (store', Raised, [Answer, Edit Downloading])
                        else
                          (store', Returned,
                           [Answer, Edit Downloading]
                           @ fetch_and_send e (url j) (tmpdir j) (chosen_height mode)
                           @ [Cleanup (tmpdir j)]))
             | _ \<Rightarrow>
                 (store, if edit_ok e InvalidButtonData then Returned else Raised,
                  [Answer, Edit InvalidButtonData])))"

text \<open>How often \<open>cleanup()\<close> of a directory is called in a sequence of calls.\<close>

definition cleanups :: "tmpdir \<Rightarrow> event list \<Rightarrow> nat" where
  "cleanups d evs = length (filter (\<lambda>ev. ev = Cleanup d) evs)"

definition fetches :: "event list \<Rightarrow> event list" where
  "fetches evs = filter (\<lambda>ev. case ev of Fetch _ _ _ \<Rightarrow> True | _ \<Rightarrow> False) evs"

section \<open>Concrete runs\<close>

text \<open>
  All the fields of a payload, \<open>s.split("|")\<close>: a string has at most as many separators
  as characters.
\<close>

definition split_all :: "string \<Rightarrow> string list" where
  "split_all s = split_max (CHR ''|'') (length s) s"

text \<open>
  A run in which every call succeeds: the extractor knows a clip with the heights 360,
  720 and 1080, the directory is number 7 and holds the file of the clip, the token
  drawn is \<open>tok\<close>.
\<close>

definition calm :: env where
  "calm =
     \<lparr>answer_ok = True, reply_ok = (\<lambda>_. True), edit_ok = (\<lambda>_. True), cleanup_ok = True,
      extractor = Some (Some (Info []
        [\<lparr>height = Some 360\<rparr>, \<lparr>height = Some 720\<rparr>, \<lparr>height = Some 1080\<rparr>]
        ''clip123'' [] ''Clip'')),
      fresh_tmpdir = 7, fresh_token = ''tok'', dir_files = [''clip123.mp4''],
      file_exists = True, video_out = (\<lambda>_. Success), doc_out = (\<lambda>_. Success)\<rparr>"

definition clip_url :: string where
  "clip_url = ''https://example.com/clip123''"

definition clip_job :: job where
  "clip_job = \<lparr>url = clip_url, tmpdir = 7\<rparr>"

text \<open>The same run, except that the call which shows the menu raises.\<close>

definition menu_edit_fails :: env where
  "menu_edit_fails = calm\<lparr>edit_ok := (\<lambda>m. case m of Menu _ \<Rightarrow> False | _ \<Rightarrow> True)\<rparr>"

text \<open>The same run, except that the call which shows "downloading" raises.\<close>

definition downloading_edit_fails :: env where
  "downloading_edit_fails =
     calm\<lparr>edit_ok := (\<lambda>m. case m of Downloading \<Rightarrow> False | _ \<Rightarrow> True)\<rparr>"

section \<open>The retry policy in the words of the specification\<close>

text \<open>
  One representation is attempted up to three times. The attempts are numbered from 1;
  an attempt is made when all the attempts before it have timed out. \<open>out i\<close> is what
  attempt \<open>i + 1\<close> does. The number of attempts made, and what the last of them does:
\<close>

definition attempts_made :: "(nat \<Rightarrow> outcome) \<Rightarrow> nat" where
  "attempts_made out =
     (if out 0 \<noteq> TimedOut then 1 else if out 1 \<noteq> TimedOut then 2 else 3)"

definition final_outcome :: "(nat \<Rightarrow> outcome) \<Rightarrow> outcome" where
  "final_outcome out = out (attempts_made out - 1)"

text \<open>
  The calls of these attempts: every attempt but the last made has timed out and is
  followed by a wait of twice its number in seconds.
\<close>

definition spec_retry_trace :: "event \<Rightarrow> (nat \<Rightarrow> outcome) \<Rightarrow> event list" where
  "spec_retry_trace send out =
     concat (map (\<lambda>i. [send, Sleep (2 * i)]) [1..<attempts_made out]) @ [send]"

text \<open>
  The delivery: the upload indicator, the attempts as a video, and, unless the last of
  them succeeded, the attempts as a document, whose last outcome is the outcome of the
  delivery.
\<close>

definition spec_delivery ::
  "(nat \<Rightarrow> outcome) \<Rightarrow> (nat \<Rightarrow> outcome) \<Rightarrow> string \<Rightarrow> string \<Rightarrow> outcome \<times> event list" where
  "spec_delivery video doc f cap =
     (if final_outcome video = Success
      then (Success, SendAction # spec_retry_trace (SendVideo f cap) video)
      else (final_outcome doc,
            SendAction # spec_retry_trace (SendVideo f cap) video
              @ spec_retry_trace (SendDocument f cap) doc))"

section \<open>The token drawn by \<open>secrets.token_urlsafe(8)\<close>\<close>

text \<open>
  \<open>store_new_job\<close> draws its token with \<open>secrets.token_urlsafe(8)\<close>: eight random bytes,
  written in base 64 with the URL-safe alphabet, the padding removed. The 64 bits of the
  bytes, followed by two zero bits, are cut into eleven groups of six bits, and each
  group is written as the character at its position in the alphabet. The eight bytes
  are given as the number \<open>r\<close> below \<open>2 ^ 64\<close> that they form, first byte first.
\<close>

definition urlsafe_alphabet :: string where
  "urlsafe_alphabet = ''ABCDEFGHIJKLMNOPQRSTUVWXYZabcdefghijklmnopqrstuvwxyz0123456789-_''"

fun sextets :: "nat \<Rightarrow> nat \<Rightarrow> nat list" where
  "sextets 0 n = []"
| "sextets (Suc k) n = sextets k (n div 64) @ [n mod 64]"

definition token_urlsafe :: "nat \<Rightarrow> token" where
  "token_urlsafe r = map (\<lambda>g. urlsafe_alphabet ! g) (sextets 11 (4 * r))"

section \<open>The mode in the words of the specification\<close>

text \<open>
  The modes that the specification names: \<open>best\<close>, and \<open>h\<close> followed by a decimal
  integer, that is by one or more of the digits \<open>0\<close> to \<open>9\<close>. The specification counts
  \<open>h0\<close> among the other modes, so the digits are not all \<open>0\<close>.
\<close>

definition spec_mode :: "string \<Rightarrow> bool" where
  "spec_mode mode =
     (mode = ''best''
      \<or> (prefix ''h'' mode \<and> drop 1 mode \<noteq> [] \<and> list_all py_isdigit (drop 1 mode)
          \<and> \<not> list_all (\<lambda>c. c = CHR ''0'') (drop 1 mode)))"

section \<open>Properties of the resolution candidates\<close>

lemma set_unique_sorted_heights:
  "set (unique_sorted_heights fs) = {h. Some h \<in> height ` set fs \<and> 240 \<le> h}"
proof -
  have "set (List.map_filter height fs) = {h. Some h \<in> height ` set fs}"
    by (induction fs) (auto simp: map_filter_simps split: option.splits)
  then show ?thesis
    by (auto simp: unique_sorted_heights_def Let_def)
qed

lemma sorted_unique_sorted_heights: "sorted (unique_sorted_heights fs)"
  by (simp add: unique_sorted_heights_def Let_def)

lemma distinct_unique_sorted_heights: "distinct (unique_sorted_heights fs)"
  by (simp add: unique_sorted_heights_def Let_def)

text \<open>
  C5: for every list of format descriptors, \<open>unique_sorted_heights\<close> returns exactly the
  integer heights that are at least 240, without duplicates and in ascending order; two
  inputs that are permutations of each other give the same list; and the heights
  144, 240, 480, 480, 720, 1080 give [240, 480, 720, 1080].
\<close>

theorem unique_sorted_heights_spec:
  "set (unique_sorted_heights fs) = {h. Some h \<in> height ` set fs \<and> 240 \<le> h}
   \<and> distinct (unique_sorted_heights fs)
   \<and> sorted (unique_sorted_heights fs)
   \<and> (mset fs = mset gs \<longrightarrow> unique_sorted_heights fs = unique_sorted_heights gs)
   \<and> unique_sorted_heights
        (map (\<lambda>h. \<lparr>height = Some h\<rparr>) [144, 240, 480, 480, 720, 1080]) = [240, 480, 720, 1080]"
proof -
  have perm: "unique_sorted_heights fs = unique_sorted_heights gs" if "mset fs = mset gs"
  proof -
    from that have "set fs = set gs" by (rule mset_eq_setD)
    then have "set (unique_sorted_heights fs) = set (unique_sorted_heights gs)"
      by (simp add: set_unique_sorted_heights)
    then show ?thesis
      by (intro sorted_distinct_set_unique)
        (simp_all add: sorted_unique_sorted_heights distinct_unique_sorted_heights)
  qed
  have ex: "unique_sorted_heights
        (map (\<lambda>h. \<lparr>height = Some h\<rparr>) [144, 240, 480, 480, 720, 1080]) = [240, 480, 720, 1080]"
    by (simp add: unique_sorted_heights_def map_filter_def)
  show ?thesis
    using perm ex
    by (simp add: set_unique_sorted_heights sorted_unique_sorted_heights
        distinct_unique_sorted_heights)
qed

theorem unique_sorted_heights_spec_witness:
  "mset [\<lparr>height = Some 720\<rparr>, \<lparr>height = None\<rparr>, \<lparr>height = Some 144\<rparr>, \<lparr>height = Some 240\<rparr>]
     = mset [\<lparr>height = Some 240\<rparr>, \<lparr>height = Some 144\<rparr>, \<lparr>height = Some 720\<rparr>, \<lparr>height = None\<rparr>]
   \<and> unique_sorted_heights
        [\<lparr>height = Some 720\<rparr>, \<lparr>height = None\<rparr>, \<lparr>height = Some 144\<rparr>, \<lparr>height = Some 240\<rparr>]
     = unique_sorted_heights
        [\<lparr>height = Some 240\<rparr>, \<lparr>height = Some 144\<rparr>, \<lparr>height = Some 720\<rparr>, \<lparr>height = None\<rparr>]
   \<and> unique_sorted_heights
        [\<lparr>height = Some 720\<rparr>, \<lparr>height = None\<rparr>, \<lparr>height = Some 144\<rparr>, \<lparr>height = Some 240\<rparr>]
     = [240, 720]"
proof -
  have m: "mset [\<lparr>height = Some 720\<rparr>, \<lparr>height = None\<rparr>, \<lparr>height = Some 144\<rparr>, \<lparr>height = Some 240\<rparr>]
     = mset [\<lparr>height = Some 240\<rparr>, \<lparr>height = Some 144\<rparr>, \<lparr>height = Some 720\<rparr>, \<lparr>height = None\<rparr>]"
    by simp
  have v: "unique_sorted_heights
        [\<lparr>height = Some 720\<rparr>, \<lparr>height = None\<rparr>, \<lparr>height = Some 144\<rparr>, \<lparr>height = Some 240\<rparr>]
     = [240, 720]"
    by (simp add: unique_sorted_heights_def map_filter_def)
  from unique_sorted_heights_spec
    [of "[\<lparr>height = Some 720\<rparr>, \<lparr>height = None\<rparr>, \<lparr>height = Some 144\<rparr>, \<lparr>height = Some 240\<rparr>]"
        "[\<lparr>height = Some 240\<rparr>, \<lparr>height = Some 144\<rparr>, \<lparr>height = Some 720\<rparr>, \<lparr>height = None\<rparr>]"]
  have "unique_sorted_heights
        [\<lparr>height = Some 720\<rparr>, \<lparr>height = None\<rparr>, \<lparr>height = Some 144\<rparr>, \<lparr>height = Some 240\<rparr>]
     = unique_sorted_heights
        [\<lparr>height = Some 240\<rparr>, \<lparr>height = Some 144\<rparr>, \<lparr>height = Some 720\<rparr>, \<lparr>height = None\<rparr>]"
    using m by blast
  with m v show ?thesis by blast
qed

section \<open>Properties of the format expression\<close>

lemma digit_char_in: "d < 10 \<Longrightarrow> digit_char d \<in> set ''0123456789''"
  unfolding digit_char_def by (rule nth_mem) simp

lemma set_str_nat: "set (str_nat n) \<subseteq> set ''0123456789''"
proof (induction n rule: str_nat.induct)
  case (1 n)
  show ?case
  proof (cases "n < 10")
    case True
    then show ?thesis using digit_char_in[of n] by (subst str_nat.simps) simp
  next
    case False
    have "n mod 10 < 10" by simp
    then have "digit_char (n mod 10) \<in> set ''0123456789''" by (rule digit_char_in)
    with False 1 show ?thesis by (subst str_nat.simps) simp
  qed
qed

lemma set_str_int: "set (str_int i) \<subseteq> set ''-0123456789''"
proof -
  have sub: "set (str_nat k) \<subseteq> set (CHR ''-'' # ''0123456789'')" for k
    using set_str_nat[of k] set_subset_Cons[of "''0123456789''" "CHR ''-''"]
    by (rule subset_trans)
  show ?thesis
  proof (cases "i < 0")
    case True
    then have "str_int i = CHR ''-'' # str_nat (nat (- i))" by (simp add: str_int_def)
    moreover have "CHR ''-'' \<in> set (CHR ''-'' # ''0123456789'')" by (rule list.set_intros(1))
    ultimately show ?thesis using sub[of "nat (- i)"] by (simp only: set_simps insert_subset)
  next
    case False
    then have "str_int i = str_nat (nat i)" by (simp add: str_int_def)
    then show ?thesis using sub[of "nat i"] by (simp only:)
  qed
qed

lemma str_int_no_sep:
  "CHR ''/'' \<notin> set (str_int i)" "CHR ''+'' \<notin> set (str_int i)" "CHR ''['' \<notin> set (str_int i)"
proof -
  have "CHR ''/'' \<notin> set ''-0123456789''" "CHR ''+'' \<notin> set ''-0123456789''"
    "CHR ''['' \<notin> set ''-0123456789''"
    by simp_all
  then show "CHR ''/'' \<notin> set (str_int i)" "CHR ''+'' \<notin> set (str_int i)"
    "CHR ''['' \<notin> set (str_int i)"
    using set_str_int[of i] by blast+
qed

lemma split_max_none: "sep \<notin> set s \<Longrightarrow> split_max sep n s = [s]"
  by (cases n) auto

lemma takeWhile_sep: "sep \<notin> set a \<Longrightarrow> takeWhile (\<lambda>c. c \<noteq> sep) (a @ sep # b) = a"
  by (induction a) auto

lemma dropWhile_sep: "sep \<notin> set a \<Longrightarrow> dropWhile (\<lambda>c. c \<noteq> sep) (a @ sep # b) = sep # b"
  by (induction a) auto

lemma split_max_first:
  "sep \<notin> set a \<Longrightarrow> split_max sep (Suc n) (a @ sep # b) = a # split_max sep n b"
  by (simp add: takeWhile_sep dropWhile_sep)

lemma alternatives_height:
  assumes "n \<noteq> 0"
  shows "alternatives (build_format_string (Some n))
     = [''bestvideo*'' @ height_filter n @ ''+bestaudio'', ''best'' @ height_filter n]"
proof -
  let ?a = "''bestvideo*'' @ height_filter n @ ''+bestaudio''"
  let ?b = "''best'' @ height_filter n"
  have e: "build_format_string (Some n) = ?a @ CHR ''/'' # ?b"
    using assms by (simp add: build_format_string_def height_filter_def)
  have a: "CHR ''/'' \<notin> set ?a" and b: "CHR ''/'' \<notin> set ?b"
    using str_int_no_sep(1)[of n] by (auto simp: height_filter_def)
  have l: "length (?a @ CHR ''/'' # ?b) = Suc (length ?a + length ?b)" by simp
  show ?thesis
    unfolding alternatives_def e l
    by (simp only: split_max_first[OF a] split_max_none[OF b])
qed

lemma merged_streams_height:
  "merged_streams (''bestvideo*'' @ height_filter n @ ''+bestaudio'')
     = [''bestvideo*'' @ height_filter n, ''bestaudio'']"
proof -
  let ?a = "''bestvideo*'' @ height_filter n"
  have e: "''bestvideo*'' @ height_filter n @ ''+bestaudio'' = ?a @ CHR ''+'' # ''bestaudio''"
    by simp
  have a: "CHR ''+'' \<notin> set ?a" and b: "CHR ''+'' \<notin> set ''bestaudio''"
    using str_int_no_sep(2)[of n] by (auto simp: height_filter_def)
  have l: "length (?a @ CHR ''+'' # ''bestaudio'') = Suc (length ?a + 9)" by simp
  show ?thesis
    unfolding merged_streams_def e l
    by (simp only: split_max_first[OF a] split_max_none[OF b])
qed

lemma selector_filter_height:
  "selector_filter (''bestvideo*'' @ height_filter n) = (''bestvideo*'', height_filter n)"
  "selector_filter (''best'' @ height_filter n) = (''best'', height_filter n)"
  "selector_filter ''bestaudio'' = (''bestaudio'', [])"
  by (simp_all add: selector_filter_def height_filter_def)

lemma height_filter_720: "height_filter 720 = ''[height<=?720]''"
  by code_simp

text \<open>
  C3, as the specification states it, fails at the height 720: the expression built for
  720 does not limit the audio stream, and its fallback alternative is not the
  unconstrained \<open>best\<close>.
\<close>

theorem build_format_string_counterexample:
  "\<not> spec_height_expression 720 (build_format_string (Some 720))"
  by code_simp

text \<open>
  C3, amended: the mode \<open>best\<close> (no height, and likewise the height 0) gives the
  expression \<open>bestvideo*+bestaudio/best\<close>, that is best video merged with best audio, or
  else the best combined stream, none of them filtered. For every integer \<open>n\<close> other
  than 0 the expression has two alternatives: the video selector \<open>bestvideo*\<close> under
  the filter \<open>[height<=?n]\<close> merged with the audio selector \<open>bestaudio\<close>, which carries
  no filter; and, as the fallback, the combined selector \<open>best\<close> under the same filter
  \<open>[height<=?n]\<close>.
\<close>

theorem build_format_string_expression:
  "alternatives (build_format_string None) = [''bestvideo*+bestaudio'', ''best'']
   \<and> merged_streams ''bestvideo*+bestaudio'' = [''bestvideo*'', ''bestaudio'']
   \<and> selector_filter ''bestvideo*'' = (''bestvideo*'', [])
   \<and> selector_filter ''best'' = (''best'', [])
   \<and> build_format_string (Some 0) = build_format_string None
   \<and> (n \<noteq> 0 \<longrightarrow>
        alternatives (build_format_string (Some n))
          = [''bestvideo*'' @ height_filter n @ ''+bestaudio'', ''best'' @ height_filter n]
        \<and> merged_streams (''bestvideo*'' @ height_filter n @ ''+bestaudio'')
          = [''bestvideo*'' @ height_filter n, ''bestaudio'']
        \<and> selector_filter (''bestvideo*'' @ height_filter n) = (''bestvideo*'', height_filter n)
        \<and> selector_filter ''bestaudio'' = (''bestaudio'', [])
        \<and> selector_filter (''best'' @ height_filter n) = (''best'', height_filter n))"
proof -
  have best: "alternatives (build_format_string None) = [''bestvideo*+bestaudio'', ''best'']"
    by (simp add: alternatives_def build_format_string_def)
  have streams: "merged_streams ''bestvideo*+bestaudio'' = [''bestvideo*'', ''bestaudio'']"
    by (simp add: merged_streams_def)
  have sel: "selector_filter ''bestvideo*'' = (''bestvideo*'', [])"
    "selector_filter ''best'' = (''best'', [])"
    by (simp_all add: selector_filter_def)
  have zero: "build_format_string (Some 0) = build_format_string None"
    by (simp add: build_format_string_def)
  show ?thesis
    by (intro conjI impI)
      (rule best streams sel zero alternatives_height merged_streams_height
        selector_filter_height | assumption)+
qed

theorem build_format_string_expression_witness:
  "(720::int) \<noteq> 0
   \<and> alternatives (build_format_string (Some 720))
       = [''bestvideo*[height<=?720]+bestaudio'', ''best[height<=?720]'']
   \<and> merged_streams ''bestvideo*[height<=?720]+bestaudio''
       = [''bestvideo*[height<=?720]'', ''bestaudio'']
   \<and> selector_filter ''bestaudio'' = (''bestaudio'', [])
   \<and> selector_filter ''best[height<=?720]'' = (''best'', ''[height<=?720]'')"
proof -
  have nz: "(720::int) \<noteq> 0" by simp
  from build_format_string_expression[of 720] nz
  have "alternatives (build_format_string (Some 720))
          = [''bestvideo*'' @ height_filter 720 @ ''+bestaudio'', ''best'' @ height_filter 720]"
    and "merged_streams (''bestvideo*'' @ height_filter 720 @ ''+bestaudio'')
          = [''bestvideo*'' @ height_filter 720, ''bestaudio'']"
    and "selector_filter ''bestaudio'' = (''bestaudio'', [])"
    and "selector_filter (''best'' @ height_filter 720) = (''best'', height_filter 720)"
    by blast+
  then show ?thesis
    unfolding height_filter_720 by simp
qed

section \<open>Properties of the job registry\<close>

lemma dict_set_new: "k \<notin> fst ` set d \<Longrightarrow> dict_set k v d = d @ [(k, v)]"
  unfolding dict_set_def by (induction d) auto

lemma length_dict_set: "length (dict_set k v d) \<le> Suc (length d)"
  unfolding dict_set_def by (induction d) auto

lemma delete_filter: "AList.delete k store = filter (\<lambda>p. fst p \<noteq> k) store"
  by (induction store) auto

lemma fst_evict: "fst (evict store ks) = filter (\<lambda>p. fst p \<notin> set ks) store"
proof (induction ks arbitrary: store)
  case Nil
  show ?case by simp
next
  case (Cons k ks)
  have step: "fst (evict store (k # ks)) = fst (evict (AList.delete k store) ks)"
  proof (cases "map_of store k")
    case None
    then show ?thesis by (simp add: dict_pop_def)
  next
    case (Some j)
    obtain s r where e: "evict (AList.delete k store) ks = (s, r)"
      by (cases "evict (AList.delete k store) ks")
    with Some show ?thesis by (simp add: dict_pop_def)
  qed
  have two: "filter (\<lambda>p. fst p \<notin> set ks) (filter (\<lambda>p. fst p \<noteq> k) xs)
      = filter (\<lambda>p. fst p \<notin> set (k # ks)) xs" for xs :: store
    by (induction xs) auto
  have "fst (evict store (k # ks)) = filter (\<lambda>p. fst p \<notin> set ks) (AList.delete k store)"
    unfolding step by (rule Cons.IH)
  also have "\<dots> = filter (\<lambda>p. fst p \<notin> set (k # ks)) store"
    unfolding delete_filter by (rule two)
  finally show ?case .
qed

lemma length_evict_prefix:
  "length (fst (evict store (take n (map fst store)))) \<le> length store - n"
proof -
  define P where "P = (\<lambda>p :: token \<times> job. fst p \<notin> set (take n (map fst store)))"
  have mem: "fst p \<in> set (take n (map fst store))" if "p \<in> set (take n store)" for p
  proof -
    from that have "fst p \<in> fst ` set (take n store)" by (rule imageI)
    then show ?thesis by (simp add: take_map)
  qed
  have none: "filter P (take n store) = []"
    unfolding filter_empty_conv P_def using mem by blast
  have "filter P (take n store @ drop n store) = filter P (take n store) @ filter P (drop n store)"
    by (rule filter_append)
  then have "filter P store = filter P (drop n store)"
    unfolding none append_take_drop_id by simp
  moreover have "length (filter P (drop n store)) \<le> length (drop n store)"
    by (rule length_filter_le)
  ultimately have "length (filter P store) \<le> length store - n" by simp
  then show ?thesis unfolding fst_evict P_def .
qed

lemma store_new_job_bound: "length (fst (store_new_job store t u d)) \<le> 50"
proof -
  define s where "s = dict_set t \<lparr>url = u, tmpdir = d\<rparr> store"
  show ?thesis
  proof (cases "length s > 50")
    case True
    obtain s2 r where e: "evict s (take (length s - 50) (map fst s)) = (s2, r)"
      by (cases "evict s (take (length s - 50) (map fst s))") auto
    have "length (fst (evict s (take (length s - 50) (map fst s)))) \<le> length s - (length s - 50)"
      by (rule length_evict_prefix)
    with True e have "length s2 \<le> 50" by simp
    moreover have "store_new_job store t u d = (s2, r, t)"
      using True e by (simp add: store_new_job_def Let_def s_def)
    ultimately show ?thesis by simp
  next
    case False
    then show ?thesis by (simp add: store_new_job_def Let_def s_def)
  qed
qed

lemma evict_oldest:
  "distinct (map fst store) \<Longrightarrow>
   evict store (take n (map fst store)) = (drop n store, map (tmpdir \<circ> snd) (take n store))"
proof (induction store arbitrary: n)
  case Nil
  show ?case by simp
next
  case (Cons p ps)
  show ?case
  proof (cases n)
    case 0
    then show ?thesis by simp
  next
    case (Suc m)
    from Cons.prems have notin: "fst p \<notin> fst ` set ps" and d: "distinct (map fst ps)"
      by auto
    have pop: "dict_pop (p # ps) (fst p) = (Some (snd p), ps)"
      using notin by (cases p) (simp add: dict_pop_def)
    from Cons.IH[OF d, of m] pop Suc show ?thesis by simp
  qed
qed

lemma store_new_job_fresh:
  assumes "distinct (map fst store)" "t \<notin> fst ` set store"
  shows "store_new_job store t u d =
     (drop (Suc (length store) - 50) (store @ [(t, \<lparr>url = u, tmpdir = d\<rparr>)]),
      map (tmpdir \<circ> snd) (take (Suc (length store) - 50) (store @ [(t, \<lparr>url = u, tmpdir = d\<rparr>)])),
      t)"
proof -
  let ?s = "store @ [(t, \<lparr>url = u, tmpdir = d\<rparr>)]"
  have s: "dict_set t \<lparr>url = u, tmpdir = d\<rparr> store = ?s"
    using assms(2) by (rule dict_set_new)
  have ds: "distinct (map fst ?s)" using assms by auto
  show ?thesis
  proof (cases "length ?s > 50")
    case True
    with evict_oldest[OF ds, of "length ?s - 50"] show ?thesis
      unfolding store_new_job_def s Let_def by simp
  next
    case False
    then show ?thesis unfolding store_new_job_def s Let_def by simp
  qed
qed

lemma store_jobs_oldest:
  "distinct (map fst store @ map fst reqs) \<Longrightarrow> length store \<le> 50 \<Longrightarrow>
   store_jobs store reqs =
     (drop (length (store @ map new_job reqs) - 50) (store @ map new_job reqs),
      map (tmpdir \<circ> snd) (take (length (store @ map new_job reqs) - 50) (store @ map new_job reqs)))"
proof (induction reqs arbitrary: store)
  case Nil
  then show ?case by simp
next
  case (Cons r rs)
  obtain t u d where r: "r = (t, u, d)" by (cases r) auto
  define sj where "sj = store @ [(t, \<lparr>url = u, tmpdir = d\<rparr>)]"
  define n where "n = Suc (length store) - 50"
  define s1 where "s1 = drop n sj"
  define rest where "rest = map new_job rs"
  define all where "all = sj @ rest"
  define m where "m = length (s1 @ rest) - 50"
  have lsj: "length sj = Suc (length store)" by (simp add: sj_def)
  from Cons.prems(1) have ds: "distinct (map fst store)" and nt: "t \<notin> fst ` set store"
    by (auto simp: r)
  have new: "store_new_job store t u d = (s1, map (tmpdir \<circ> snd) (take n sj), t)"
    unfolding s1_def n_def sj_def by (rule store_new_job_fresh[OF ds nt])
  have nle: "n \<le> length sj" by (simp add: n_def lsj)
  have ls1: "length s1 = length sj - n" by (simp add: s1_def)
  have len1: "length s1 \<le> 50" using Cons.prems(2) by (simp add: ls1 lsj n_def)
  have "distinct (map fst sj @ map fst rs)"
    using Cons.prems(1) by (simp add: r sj_def)
  moreover have "sj = take n sj @ s1"
    by (simp only: s1_def append_take_drop_id)
  ultimately have "distinct (map fst (take n sj @ s1) @ map fst rs)"
    by (simp only:)
  then have d1: "distinct (map fst s1 @ map fst rs)" by simp
  have eq1: "s1 @ rest = drop n all" using nle by (simp add: s1_def all_def)
  have tk1: "take n sj = take n all" using nle by (simp add: all_def)
  have lall: "length all = length sj + length rest" by (simp add: all_def)
  have sum: "n + m = length all - 50"
    using Cons.prems(2) unfolding m_def lall length_append ls1 lsj n_def by arith
  have ih: "store_jobs s1 rs = (drop m (s1 @ rest), map (tmpdir \<circ> snd) (take m (s1 @ rest)))"
    unfolding m_def rest_def by (rule Cons.IH[OF d1 len1])
  have ih': "store_jobs s1 rs =
      (drop m (drop n all), map (tmpdir \<circ> snd) (take m (drop n all)))"
    using ih unfolding eq1 .
  have dd: "drop m (drop n all) = drop (length all - 50) all"
    unfolding sum[symmetric] by (simp add: add.commute)
  have tt: "take n all @ take m (drop n all) = take (length all - 50) all"
    unfolding sum[symmetric] by (simp add: take_add)
  have "store_jobs store (r # rs) =
      (drop m (drop n all),
       map (tmpdir \<circ> snd) (take n all) @ map (tmpdir \<circ> snd) (take m (drop n all)))"
    by (simp only: r store_jobs.simps new ih' tk1 Let_def prod.case)
  also have "\<dots> = (drop (length all - 50) all, map (tmpdir \<circ> snd) (take (length all - 50) all))"
    unfolding dd map_append[symmetric] tt by (rule refl)
  finally have "store_jobs store (r # rs) =
      (drop (length all - 50) all, map (tmpdir \<circ> snd) (take (length all - 50) all))" .
  moreover have "store @ map new_job (r # rs) = all"
    by (simp add: all_def rest_def sj_def r new_job_def)
  ultimately show ?case by (simp only:)
qed

text \<open>
  C2: whatever the registry holds, it has at most 50 entries after \<open>store_new_job\<close>.
  Starting from a registry of at most 50 jobs and inserting jobs under tokens that are
  pairwise distinct and new, so that \<open>50 + k\<close> jobs have been held in all, leaves
  exactly the 50 newest ones: the \<open>k\<close> oldest, in insertion order, are evicted, and the
  directories whose \<open>cleanup()\<close> was called are exactly theirs, one call for each
  evicted job, in that order.
\<close>

theorem store_new_job_capacity:
  "length (fst (store_new_job store t u d)) \<le> 50
   \<and> (distinct (map fst store @ map fst reqs) \<and> length store \<le> 50
        \<and> length (store @ map new_job reqs) = 50 + k \<longrightarrow>
        store_jobs store reqs =
          (drop k (store @ map new_job reqs),
           map (tmpdir \<circ> snd) (take k (store @ map new_job reqs)))
        \<and> length (fst (store_jobs store reqs)) = 50)"
proof (intro conjI impI)
  show "length (fst (store_new_job store t u d)) \<le> 50"
    by (rule store_new_job_bound)
next
  assume h: "distinct (map fst store @ map fst reqs) \<and> length store \<le> 50
    \<and> length (store @ map new_job reqs) = 50 + k"
  then have k: "length (store @ map new_job reqs) - 50 = k" by simp
  from h have "store_jobs store reqs =
     (drop (length (store @ map new_job reqs) - 50) (store @ map new_job reqs),
      map (tmpdir \<circ> snd) (take (length (store @ map new_job reqs) - 50) (store @ map new_job reqs)))"
    by (intro store_jobs_oldest) simp_all
  then show eq: "store_jobs store reqs =
          (drop k (store @ map new_job reqs),
           map (tmpdir \<circ> snd) (take k (store @ map new_job reqs)))"
    unfolding k .
  from h have "length (store @ map new_job reqs) = 50 + k" by blast
  then have "length (drop k (store @ map new_job reqs)) = 50"
    by (simp only: length_drop diff_add_inverse2)
  then show "length (fst (store_jobs store reqs)) = 50" unfolding eq by simp
qed

theorem store_new_job_capacity_witness:
  "distinct (map fst ([] :: store) @ map fst fifty_two_jobs)
   \<and> length ([] :: store) \<le> 50
   \<and> length ([] @ map new_job fifty_two_jobs) = 50 + 2
   \<and> store_jobs [] fifty_two_jobs =
       (drop 2 ([] @ map new_job fifty_two_jobs),
        map (tmpdir \<circ> snd) (take 2 ([] @ map new_job fifty_two_jobs)))
   \<and> length (fst (store_jobs [] fifty_two_jobs)) = 50
   \<and> map (tmpdir \<circ> snd) (take 2 ([] @ map new_job fifty_two_jobs)) = [0, 1]
   \<and> map fst (drop 2 ([] @ map new_job fifty_two_jobs)) = map str_nat [2..<52]"
proof -
  have d: "distinct (map fst ([] :: store) @ map fst fifty_two_jobs)" by code_simp
  have l0: "length ([] :: store) \<le> 50" by simp
  have l: "length ([] @ map new_job fifty_two_jobs) = 50 + 2" by code_simp
  have r: "map (tmpdir \<circ> snd) (take 2 ([] @ map new_job fifty_two_jobs)) = [0, 1]"
    by code_simp
  have k: "map fst (drop 2 ([] @ map new_job fifty_two_jobs)) = map str_nat [2..<52]"
    by code_simp
  from store_new_job_capacity[of "[]" "''t''" "''u''" 0 fifty_two_jobs 2] d l0 l
  have "store_jobs [] fifty_two_jobs =
       (drop 2 ([] @ map new_job fifty_two_jobs),
        map (tmpdir \<circ> snd) (take 2 ([] @ map new_job fifty_two_jobs)))
     \<and> length (fst (store_jobs [] fifty_two_jobs)) = 50"
    by blast
  with d l0 l r k show ?thesis by blast
qed

lemma dict_set_present:
  "k \<in> fst ` set d \<Longrightarrow> map fst (dict_set k v d) = map fst d"
  unfolding dict_set_def by (simp add: update_keys)

lemma map_of_dict_set: "map_of (dict_set k v d) k = Some v"
  unfolding dict_set_def by (simp add: update_conv')

lemma length_sextets: "length (sextets k n) = k"
  by (induction k arbitrary: n) simp_all

lemma set_sextets: "g \<in> set (sextets k n) \<Longrightarrow> g < 64"
  by (induction k arbitrary: n) auto

lemma sextets_inj:
  "n < 64 ^ k \<Longrightarrow> m < 64 ^ k \<Longrightarrow> sextets k n = sextets k m \<Longrightarrow> n = m"
proof (induction k arbitrary: n m)
  case 0
  then show ?case by simp
next
  case (Suc k)
  from Suc.prems(3) have e: "sextets k (n div 64) = sextets k (m div 64)"
    and r: "n mod 64 = m mod 64"
    by simp_all
  from Suc.prems(1) have "n div 64 < 64 ^ k"
    by (simp add: less_mult_imp_div_less mult.commute)
  moreover from Suc.prems(2) have "m div 64 < 64 ^ k"
    by (simp add: less_mult_imp_div_less mult.commute)
  ultimately have "n div 64 = m div 64"
    using e by (rule Suc.IH)
  with r show ?case
    by (metis div_mult_mod_eq)
qed

lemma length_urlsafe_alphabet: "length urlsafe_alphabet = 64"
  by (simp add: urlsafe_alphabet_def)

lemma distinct_urlsafe_alphabet: "distinct urlsafe_alphabet"
  unfolding urlsafe_alphabet_def by code_simp

lemma length_token_urlsafe: "length (token_urlsafe r) = 11"
  by (simp add: token_urlsafe_def length_sextets)

lemma set_token_urlsafe: "set (token_urlsafe r) \<subseteq> set urlsafe_alphabet"
proof
  fix c assume "c \<in> set (token_urlsafe r)"
  then obtain g where g: "g \<in> set (sextets 11 (4 * r))" and c: "c = urlsafe_alphabet ! g"
    unfolding token_urlsafe_def by auto
  from g have "g < length urlsafe_alphabet"
    unfolding length_urlsafe_alphabet by (rule set_sextets)
  then show "c \<in> set urlsafe_alphabet"
    unfolding c by (rule nth_mem)
qed

lemma token_urlsafe_inj:
  assumes r: "r < 2 ^ 64" and r': "r' < 2 ^ 64"
    and e: "token_urlsafe r = token_urlsafe r'"
  shows "r = r'"
proof -
  have i: "inj_on (\<lambda>g. urlsafe_alphabet ! g) {..<64}"
    using distinct_urlsafe_alphabet length_urlsafe_alphabet
    by (auto simp add: inj_on_def nth_eq_iff_index_eq)
  have s: "set (sextets 11 (4 * r)) \<union> set (sextets 11 (4 * r')) \<subseteq> {..<64}"
    using set_sextets by auto
  have "inj_on (\<lambda>g. urlsafe_alphabet ! g) (set (sextets 11 (4 * r)) \<union> set (sextets 11 (4 * r')))"
    using i s by (rule inj_on_subset)
  then have x: "sextets 11 (4 * r) = sextets 11 (4 * r')"
    using e unfolding token_urlsafe_def by (simp add: inj_on_map_eq_map)
  have p: "(64::nat) ^ 11 = 4 * 2 ^ 64"
    by simp
  have "4 * r < 64 ^ 11" "4 * r' < 64 ^ 11"
    unfolding p using r r' by simp_all
  then have "4 * r = 4 * r'"
    using x by (rule sextets_inj)
  then show ?thesis by simp
qed

lemma no_sep_in_token: "CHR ''|'' \<notin> set (token_urlsafe r)"
proof -
  have "CHR ''|'' \<notin> set urlsafe_alphabet"
    unfolding urlsafe_alphabet_def by code_simp
  then show ?thesis
    using set_token_urlsafe[of r] by blast
qed

lemma store_new_job_returns: "snd (snd (store_new_job store t u d)) = t"
  by (simp add: store_new_job_def Let_def split: prod.splits)

lemma store_new_job_overwrites:
  assumes "t \<in> fst ` set store" and "length store \<le> 50"
  shows "fst (store_new_job store t u d) = dict_set t \<lparr>url = u, tmpdir = d\<rparr> store"
proof -
  have "map fst (dict_set t \<lparr>url = u, tmpdir = d\<rparr> store) = map fst store"
    using assms(1) by (simp add: dict_set_present)
  then have "length (map fst (dict_set t \<lparr>url = u, tmpdir = d\<rparr> store)) = length (map fst store)"
    by (simp only:)
  then have "length (dict_set t \<lparr>url = u, tmpdir = d\<rparr> store) = length store"
    by (simp only: length_map)
  with assms(2) show ?thesis
    by (simp add: store_new_job_def Let_def)
qed

text \<open>
  C9, as the specification states it, fails: when the random source draws eight zero
  bytes, whose token is \<open>AAAAAAAAAAA\<close>, and that token is a key of the registry,
  \<open>store_new_job\<close> returns it all the same, and the job stored under it is replaced.
\<close>

theorem store_new_job_token_counterexample:
  "token_urlsafe 0 = ''AAAAAAAAAAA''
   \<and> snd (snd (store_new_job [(''AAAAAAAAAAA'', \<lparr>url = ''https://a.example/1'', tmpdir = 1\<rparr>)]
        (token_urlsafe 0) ''https://b.example/2'' 2))
     \<in> fst ` set [(''AAAAAAAAAAA'', \<lparr>url = ''https://a.example/1'', tmpdir = 1\<rparr>)]
   \<and> fst (store_new_job [(''AAAAAAAAAAA'', \<lparr>url = ''https://a.example/1'', tmpdir = 1\<rparr>)]
        (token_urlsafe 0) ''https://b.example/2'' 2)
     = [(''AAAAAAAAAAA'', \<lparr>url = ''https://b.example/2'', tmpdir = 2\<rparr>)]"
proof -
  have t0: "token_urlsafe 0 = ''AAAAAAAAAAA''"
    by code_simp
  show ?thesis
    unfolding t0 by (simp add: store_new_job_def dict_set_def)
qed

text \<open>
  C9, amended: the token that \<open>store_new_job\<close> returns is URL-safe, eleven characters
  out of the letters, the digits, \<open>-\<close> and \<open>_\<close>, and it carries the eight random bytes of
  the draw: two calls that return the same token have drawn the same bytes. The token
  is not checked against the registry. When it is not yet a key, the job becomes the
  newest entry of the registry. When it is already a key of a registry within its
  bound of 50, the token returned is one of the keys present at the time of insertion:
  the keys and their order stay as they were and the token now leads to the new job.
  So the tokens issued are distinct as far as the draws are, and not by a guarantee.
\<close>

theorem store_new_job_token:
  "length (snd (snd (store_new_job store (token_urlsafe r) u d))) = 11
   \<and> set (snd (snd (store_new_job store (token_urlsafe r) u d))) \<subseteq> set urlsafe_alphabet
   \<and> (r < 2 ^ 64 \<and> r' < 2 ^ 64
       \<and> snd (snd (store_new_job store (token_urlsafe r) u d))
           = snd (snd (store_new_job store' (token_urlsafe r') u' d'))
       \<longrightarrow> r = r')
   \<and> (distinct (map fst store) \<and> token_urlsafe r \<notin> fst ` set store \<longrightarrow>
        fst (store_new_job store (token_urlsafe r) u d)
          = drop (Suc (length store) - 50)
              (store @ [(token_urlsafe r, \<lparr>url = u, tmpdir = d\<rparr>)]))
   \<and> (token_urlsafe r \<in> fst ` set store \<and> length store \<le> 50 \<longrightarrow>
        snd (snd (store_new_job store (token_urlsafe r) u d)) \<in> fst ` set store
        \<and> map fst (fst (store_new_job store (token_urlsafe r) u d)) = map fst store
        \<and> map_of (fst (store_new_job store (token_urlsafe r) u d)) (token_urlsafe r)
            = Some \<lparr>url = u, tmpdir = d\<rparr>)"
proof (intro conjI impI)
  show "length (snd (snd (store_new_job store (token_urlsafe r) u d))) = 11"
    unfolding store_new_job_returns by (rule length_token_urlsafe)
  show "set (snd (snd (store_new_job store (token_urlsafe r) u d))) \<subseteq> set urlsafe_alphabet"
    unfolding store_new_job_returns by (rule set_token_urlsafe)
next
  assume "r < 2 ^ 64 \<and> r' < 2 ^ 64
       \<and> snd (snd (store_new_job store (token_urlsafe r) u d))
           = snd (snd (store_new_job store' (token_urlsafe r') u' d'))"
  then have "r < 2 ^ 64" "r' < 2 ^ 64" "token_urlsafe r = token_urlsafe r'"
    unfolding store_new_job_returns by blast+
  then show "r = r'"
    by (rule token_urlsafe_inj)
next
  assume "distinct (map fst store) \<and> token_urlsafe r \<notin> fst ` set store"
  then show "fst (store_new_job store (token_urlsafe r) u d)
      = drop (Suc (length store) - 50) (store @ [(token_urlsafe r, \<lparr>url = u, tmpdir = d\<rparr>)])"
    by (simp add: store_new_job_fresh)
next
  assume h: "token_urlsafe r \<in> fst ` set store \<and> length store \<le> 50"
  then have k: "token_urlsafe r \<in> fst ` set store" and b: "length store \<le> 50"
    by blast+
  note o = store_new_job_overwrites[OF k b, of u d]
  show "snd (snd (store_new_job store (token_urlsafe r) u d)) \<in> fst ` set store"
    unfolding store_new_job_returns by (rule k)
  show "map fst (fst (store_new_job store (token_urlsafe r) u d)) = map fst store"
    unfolding o using k by (simp add: dict_set_present)
  show "map_of (fst (store_new_job store (token_urlsafe r) u d)) (token_urlsafe r)
            = Some \<lparr>url = u, tmpdir = d\<rparr>"
    unfolding o by (rule map_of_dict_set)
qed

theorem store_new_job_token_witness:
  "token_urlsafe 0 \<in> fst ` set [(''AAAAAAAAAAA'', \<lparr>url = ''u1'', tmpdir = 1\<rparr>)]
   \<and> length [(''AAAAAAAAAAA'', \<lparr>url = ''u1'', tmpdir = 1\<rparr>)] \<le> 50
   \<and> map fst (fst (store_new_job [(''AAAAAAAAAAA'', \<lparr>url = ''u1'', tmpdir = 1\<rparr>)]
        (token_urlsafe 0) ''u2'' 2)) = [''AAAAAAAAAAA'']
   \<and> map_of (fst (store_new_job [(''AAAAAAAAAAA'', \<lparr>url = ''u1'', tmpdir = 1\<rparr>)]
        (token_urlsafe 0) ''u2'' 2)) (token_urlsafe 0) = Some \<lparr>url = ''u2'', tmpdir = 2\<rparr>
   \<and> distinct (map fst [(''AAAAAAAAAAA'', \<lparr>url = ''u1'', tmpdir = 1\<rparr>)])
   \<and> token_urlsafe 255 \<notin> fst ` set [(''AAAAAAAAAAA'', \<lparr>url = ''u1'', tmpdir = 1\<rparr>)]
   \<and> fst (store_new_job [(''AAAAAAAAAAA'', \<lparr>url = ''u1'', tmpdir = 1\<rparr>)]
        (token_urlsafe 255) ''u2'' 2)
       = [(''AAAAAAAAAAA'', \<lparr>url = ''u1'', tmpdir = 1\<rparr>),
          (''AAAAAAAAAP8'', \<lparr>url = ''u2'', tmpdir = 2\<rparr>)]
   \<and> (0::nat) < 2 ^ 64
   \<and> snd (snd (store_new_job [] (token_urlsafe 0) ''u1'' 1))
       = snd (snd (store_new_job [(''AAAAAAAAAAA'', \<lparr>url = ''u1'', tmpdir = 1\<rparr>)]
            (token_urlsafe 0) ''u2'' 2))"
proof -
  define s1 :: store where "s1 = [(''AAAAAAAAAAA'', \<lparr>url = ''u1'', tmpdir = 1\<rparr>)]"
  have t0: "token_urlsafe 0 = ''AAAAAAAAAAA''"
    by code_simp
  have t1: "token_urlsafe 255 = ''AAAAAAAAAP8''"
    by code_simp
  have a: "token_urlsafe 0 \<in> fst ` set s1"
    unfolding t0 s1_def by simp
  have l: "length s1 \<le> 50"
    unfolding s1_def by simp
  have dd: "distinct (map fst s1)"
    unfolding s1_def by simp
  have b: "token_urlsafe 255 \<notin> fst ` set s1"
    unfolding t1 s1_def by simp
  have z: "(0::nat) < 2 ^ 64"
    by simp
  note w0 = store_new_job_token[of s1 0 "''u2''" 2 0 "[]" "''u1''" 1]
  note w1 = store_new_job_token[of s1 255 "''u2''" 2 0 "[]" "''u1''" 1]
  note w2 = store_new_job_token[of "[]" 0 "''u1''" 1 0 s1 "''u2''" 2]
  from w0 a l have "map fst (fst (store_new_job s1 (token_urlsafe 0) ''u2'' 2)) = map fst s1"
    by blast
  then have c1: "map fst (fst (store_new_job s1 (token_urlsafe 0) ''u2'' 2)) = [''AAAAAAAAAAA'']"
    unfolding s1_def by simp
  from w0 a l have c2: "map_of (fst (store_new_job s1 (token_urlsafe 0) ''u2'' 2))
      (token_urlsafe 0) = Some \<lparr>url = ''u2'', tmpdir = 2\<rparr>"
    by blast
  from w1 dd b have "fst (store_new_job s1 (token_urlsafe 255) ''u2'' 2)
      = drop (Suc (length s1) - 50) (s1 @ [(token_urlsafe 255, \<lparr>url = ''u2'', tmpdir = 2\<rparr>)])"
    by blast
  then have c3: "fst (store_new_job s1 (token_urlsafe 255) ''u2'' 2)
      = [(''AAAAAAAAAAA'', \<lparr>url = ''u1'', tmpdir = 1\<rparr>),
         (''AAAAAAAAAP8'', \<lparr>url = ''u2'', tmpdir = 2\<rparr>)]"
    unfolding t1 s1_def by simp
  have c4: "snd (snd (store_new_job [] (token_urlsafe 0) ''u1'' 1))
       = snd (snd (store_new_job s1 (token_urlsafe 0) ''u2'' 2))"
    unfolding store_new_job_returns ..
  from w2 z c4 have "(0::nat) = 0"
    by blast
  from a l c1 c2 dd b c3 z c4 show ?thesis
    unfolding s1_def by blast
qed

section \<open>Properties of the resolution menu\<close>

lemma concat_button_rows:
  "concat (button_rows token hs row) = row @ map (height_button token) hs"
  by (induction hs arbitrary: row) (simp_all add: Let_def)

lemma distinct_wanted: "distinct wanted"
  by (simp add: wanted_def)

lemma sorted_wanted: "sorted wanted"
  by (simp add: wanted_def)

lemma set_filter_wanted: "set (filter (\<lambda>h. h \<in> set hs) wanted) = set hs \<inter> set wanted"
  by auto

text \<open>
  C6: when some candidate height is in the preferred list, the heights shown are
  exactly the candidates that are in the preferred list, in the order of that list.
  When none is, the heights shown are the last three of the candidate list, which is
  sorted ascending, or all of them if there are at most three. The buttons of the menu,
  row by row, are the buttons of the heights shown followed by the "best" button, which
  is the last row by itself. The button of a height \<open>h\<close> is labelled with \<open>h\<close> and carries
  the payload \<open>dl|token|hh\<close> with \<open>h\<close> in decimal; the "best" button is labelled as such
  and carries the payload \<open>dl|token|best\<close>. The candidates 240, 360, 720, 2160 are shown as
  they are, in a row of three and a row of one, followed by the row of the "best" button.
\<close>

theorem display_heights_policy:
  "(set hs \<inter> set wanted \<noteq> {} \<longrightarrow>
      set (display_heights hs) = set hs \<inter> set wanted
      \<and> subseq (display_heights hs) wanted)
   \<and> (set hs \<inter> set wanted = {} \<longrightarrow>
      display_heights hs = drop (length hs - 3) hs
      \<and> length (display_heights hs) = min 3 (length hs))
   \<and> concat (build_buttons token hs)
        = map (height_button token) (display_heights hs) @ [best_button token]
   \<and> last (build_buttons token hs) = [best_button token]
   \<and> wanted = [240, 360, 480, 720, 1080, 1440, 2160]
   \<and> display_heights [240, 360, 720, 2160] = [240, 360, 720, 2160]
   \<and> map caption (concat (build_buttons token hs))
        = map HeightCaption (display_heights hs) @ [BestCaption]
   \<and> map callback_data (concat (build_buttons token hs))
        = map (\<lambda>h. ''dl|'' @ token @ ''|h'' @ str_int h) (display_heights hs)
          @ [''dl|'' @ token @ ''|best'']
   \<and> last (build_buttons token hs)
        = [\<lparr>caption = BestCaption, callback_data = ''dl|'' @ token @ ''|best''\<rparr>]
   \<and> build_buttons ''tok'' [240, 360, 720, 2160]
        = [[\<lparr>caption = HeightCaption 240, callback_data = ''dl|tok|h240''\<rparr>,
            \<lparr>caption = HeightCaption 360, callback_data = ''dl|tok|h360''\<rparr>,
            \<lparr>caption = HeightCaption 720, callback_data = ''dl|tok|h720''\<rparr>],
           [\<lparr>caption = HeightCaption 2160, callback_data = ''dl|tok|h2160''\<rparr>],
           [\<lparr>caption = BestCaption, callback_data = ''dl|tok|best''\<rparr>]]"
proof (intro conjI impI)
  assume ne: "set hs \<inter> set wanted \<noteq> {}"
  then have "filter (\<lambda>h. h \<in> set hs) wanted \<noteq> []"
    unfolding set_filter_wanted[symmetric] by (simp only: set_empty not_False_eq_True)
  then have d: "display_heights hs = filter (\<lambda>h. h \<in> set hs) wanted"
    by (simp add: display_heights_def Let_def)
  show "set (display_heights hs) = set hs \<inter> set wanted"
    unfolding d by (rule set_filter_wanted)
  show "subseq (display_heights hs) wanted"
    unfolding d by (rule subseq_filter_left)
next
  assume e: "set hs \<inter> set wanted = {}"
  then have "filter (\<lambda>h. h \<in> set hs) wanted = []"
    unfolding set_filter_wanted[symmetric] by (simp only: set_empty)
  then have d: "display_heights hs = (if length hs > 3 then drop (length hs - 3) hs else hs)"
    by (simp add: display_heights_def Let_def)
  show "display_heights hs = drop (length hs - 3) hs"
    unfolding d by simp
  show "length (display_heights hs) = min 3 (length hs)"
    unfolding d by simp
next
  show "concat (build_buttons token hs)
        = map (height_button token) (display_heights hs) @ [best_button token]"
    by (simp add: build_buttons_def concat_button_rows)
  show "last (build_buttons token hs) = [best_button token]"
    by (simp add: build_buttons_def)
  show "wanted = [240, 360, 480, 720, 1080, 1440, 2160]"
    by (rule wanted_def)
  show "display_heights [240, 360, 720, 2160] = [240, 360, 720, 2160]"
    by (simp add: display_heights_def wanted_def)
  show "map caption (concat (build_buttons token hs))
        = map HeightCaption (display_heights hs) @ [BestCaption]"
    by (simp add: build_buttons_def concat_button_rows height_button_def best_button_def
        comp_def)
  show "map callback_data (concat (build_buttons token hs))
        = map (\<lambda>h. ''dl|'' @ token @ ''|h'' @ str_int h) (display_heights hs)
          @ [''dl|'' @ token @ ''|best'']"
    by (simp add: build_buttons_def concat_button_rows height_button_def best_button_def
        comp_def)
  show "last (build_buttons token hs)
        = [\<lparr>caption = BestCaption, callback_data = ''dl|'' @ token @ ''|best''\<rparr>]"
    by (simp add: build_buttons_def best_button_def)
  show "build_buttons ''tok'' [240, 360, 720, 2160]
        = [[\<lparr>caption = HeightCaption 240, callback_data = ''dl|tok|h240''\<rparr>,
            \<lparr>caption = HeightCaption 360, callback_data = ''dl|tok|h360''\<rparr>,
            \<lparr>caption = HeightCaption 720, callback_data = ''dl|tok|h720''\<rparr>],
           [\<lparr>caption = HeightCaption 2160, callback_data = ''dl|tok|h2160''\<rparr>],
           [\<lparr>caption = BestCaption, callback_data = ''dl|tok|best''\<rparr>]]"
    by code_simp
qed

theorem display_heights_policy_witness:
  "set [240, 360, 720, 2160] \<inter> set wanted \<noteq> {}
   \<and> set (display_heights [240, 360, 720, 2160]) = set [240, 360, 720, 2160] \<inter> set wanted
   \<and> subseq (display_heights [240, 360, 720, 2160]) wanted
   \<and> set [250, 300, 400, 500] \<inter> set wanted = {}
   \<and> display_heights [250, 300, 400, 500] = drop (length [250, 300, 400, 500 :: int] - 3) [250, 300, 400, 500]
   \<and> display_heights [250, 300, 400, 500] = [300, 400, 500]
   \<and> concat (build_buttons ''t'' [240, 360, 720, 2160])
       = map (height_button ''t'') [240, 360, 720, 2160] @ [best_button ''t'']
   \<and> map caption (concat (build_buttons ''t'' [250, 300, 400, 500]))
       = [HeightCaption 300, HeightCaption 400, HeightCaption 500, BestCaption]"
proof -
  have a: "set [240, 360, 720, 2160] \<inter> set wanted \<noteq> {}"
    by (simp add: wanted_def)
  have b: "set [250, 300, 400, 500] \<inter> set wanted = {}"
    by (simp add: wanted_def)
  have v: "display_heights [240, 360, 720, 2160] = [240, 360, 720, 2160]"
    by (simp add: display_heights_def wanted_def)
  note t1 = display_heights_policy[of "[240, 360, 720, 2160]" "''t''"]
  note t2 = display_heights_policy[of "[250, 300, 400, 500]" "''t''"]
  from t1 a have c1: "set (display_heights [240, 360, 720, 2160]) = set [240, 360, 720, 2160] \<inter> set wanted"
    and c2: "subseq (display_heights [240, 360, 720, 2160]) wanted"
    by blast+
  from t2 b have c3: "display_heights [250, 300, 400, 500]
      = drop (length [250, 300, 400, 500 :: int] - 3) [250, 300, 400, 500]"
    by blast
  then have c4: "display_heights [250, 300, 400, 500] = [300, 400, 500]" by simp
  from t1 have "concat (build_buttons ''t'' [240, 360, 720, 2160])
       = map (height_button ''t'') (display_heights [240, 360, 720, 2160]) @ [best_button ''t'']"
    by blast
  then have c5: "concat (build_buttons ''t'' [240, 360, 720, 2160])
       = map (height_button ''t'') [240, 360, 720, 2160] @ [best_button ''t'']"
    unfolding v .
  from t2 have "map caption (concat (build_buttons ''t'' [250, 300, 400, 500]))
       = map HeightCaption (display_heights [250, 300, 400, 500]) @ [BestCaption]"
    by blast
  then have c6: "map caption (concat (build_buttons ''t'' [250, 300, 400, 500]))
       = [HeightCaption 300, HeightCaption 400, HeightCaption 500, BestCaption]"
    unfolding c4 by simp
  from a c1 c2 b c3 c4 c5 c6 show ?thesis by blast
qed
section \<open>Properties of the delivery procedure\<close>

lemma send_video_attempts_bound:
  "length (filter (\<lambda>ev. ev = SendVideo f cap) (snd (send_video_attempts video f cap as)))
     \<le> length as"
  by (induction as) (simp_all add: case_prod_beta split: outcome.split)

lemma send_video_attempts_no_document:
  "filter (\<lambda>ev. ev = SendDocument f cap) (snd (send_video_attempts video f cap as)) = []"
  by (induction as) (simp_all add: case_prod_beta split: outcome.split)

lemma send_document_attempts_bound:
  "length (filter (\<lambda>ev. ev = SendDocument f cap) (snd (send_document_attempts doc f cap as)))
     \<le> length as"
  by (induction as) (simp_all add: case_prod_beta split: outcome.split)

lemma send_document_attempts_no_video:
  "filter (\<lambda>ev. ev = SendVideo f cap) (snd (send_document_attempts doc f cap as)) = []"
  by (induction as) (simp_all add: case_prod_beta split: outcome.split)

lemma sends_bound:
  "length (filter (\<lambda>ev. ev = SendVideo f cap)
             (snd (send_with_retries_as_video_or_doc video doc f cap))) \<le> 3
   \<and> length (filter (\<lambda>ev. ev = SendDocument f cap)
             (snd (send_with_retries_as_video_or_doc video doc f cap))) \<le> 3"
proof -
  obtain sent evs where v: "send_video_attempts video f cap [0, 1, 2] = (sent, evs)"
    by (cases "send_video_attempts video f cap [0, 1, 2]")
  obtain r evs' where d: "send_document_attempts doc f cap [0, 1, 2] = (r, evs')"
    by (cases "send_document_attempts doc f cap [0, 1, 2]")
  have v1: "length (filter (\<lambda>ev. ev = SendVideo f cap) evs) \<le> 3"
    using send_video_attempts_bound[of f cap video "[0, 1, 2]"] unfolding v by simp
  have v2: "filter (\<lambda>ev. ev = SendDocument f cap) evs = []"
    using send_video_attempts_no_document[of f cap video "[0, 1, 2]"] unfolding v by simp
  have d1: "length (filter (\<lambda>ev. ev = SendDocument f cap) evs') \<le> 3"
    using send_document_attempts_bound[of f cap doc "[0, 1, 2]"] unfolding d by simp
  have d2: "filter (\<lambda>ev. ev = SendVideo f cap) evs' = []"
    using send_document_attempts_no_video[of f cap doc "[0, 1, 2]"] unfolding d by simp
  show ?thesis
    unfolding send_with_retries_as_video_or_doc_def v d
    using v1 v2 d1 d2 by simp
qed

lemma spec_retry_trace_cases:
  "spec_retry_trace send out =
     (if out 0 \<noteq> TimedOut then [send]
      else if out 1 \<noteq> TimedOut then [send, Sleep 2, send]
      else [send, Sleep 2, send, Sleep 4, send])"
  by (simp add: spec_retry_trace_def attempts_made_def upt_rec)

lemma final_outcome_cases:
  "final_outcome out =
     (if out 0 \<noteq> TimedOut then out 0 else if out 1 \<noteq> TimedOut then out 1 else out 2)"
  by (simp add: final_outcome_def attempts_made_def)

lemma send_video_attempts_spec:
  "send_video_attempts video f cap [0, 1, 2]
     = (final_outcome video = Success, spec_retry_trace (SendVideo f cap) video)"
  unfolding spec_retry_trace_cases final_outcome_cases
  by (cases "video 0"; cases "video 1"; cases "video 2") simp_all

lemma send_document_attempts_spec:
  "send_document_attempts doc f cap [0, 1, 2]
     = (final_outcome doc, spec_retry_trace (SendDocument f cap) doc)"
  unfolding spec_retry_trace_cases final_outcome_cases
  by (cases "doc 0"; cases "doc 1"; cases "doc 2") simp_all

lemma delivery_refines:
  "send_with_retries_as_video_or_doc video doc f cap = spec_delivery video doc f cap"
  unfolding send_with_retries_as_video_or_doc_def spec_delivery_def
    send_video_attempts_spec send_document_attempts_spec
  by simp

lemma attempts_made_timeouts: "i < attempts_made out - 1 \<Longrightarrow> out i = TimedOut"
  unfolding attempts_made_def
  by (cases "out 0 = TimedOut"; cases "out 1 = TimedOut"; cases i) (simp_all split: if_splits)

text \<open>
  C4: for every course of the uploads, the delivery procedure does what the retry
  policy says, call by call. It shows the upload indicator, attempts the video up to
  three times, each attempt but the last made having timed out and being followed by a
  wait of twice its number in seconds; a video attempt that succeeds ends the procedure;
  otherwise, whether the last video attempt failed with another error or was the third
  to time out, the document is attempted in the same way, and what the last document
  attempt does, a timeout of the third included, is the outcome that reaches the caller.
\<close>

theorem delivery_retry_policy:
  "send_with_retries_as_video_or_doc video doc f cap = spec_delivery video doc f cap
   \<and> 1 \<le> attempts_made out \<and> attempts_made out \<le> 3
   \<and> (\<forall>i. i < attempts_made out - 1 \<longrightarrow> out i = TimedOut)
   \<and> (attempts_made out < 3 \<longrightarrow> final_outcome out \<noteq> TimedOut)
   \<and> length (filter (\<lambda>ev. ev = SendVideo f cap)
               (snd (send_with_retries_as_video_or_doc video doc f cap))) \<le> 3
   \<and> length (filter (\<lambda>ev. ev = SendDocument f cap)
               (snd (send_with_retries_as_video_or_doc video doc f cap))) \<le> 3"
proof (intro conjI allI impI)
  show "send_with_retries_as_video_or_doc video doc f cap = spec_delivery video doc f cap"
    by (rule delivery_refines)
  show "1 \<le> attempts_made out" "attempts_made out \<le> 3"
    by (simp_all add: attempts_made_def)
  show "out i = TimedOut" if "i < attempts_made out - 1" for i
    using that by (rule attempts_made_timeouts)
  show "final_outcome out \<noteq> TimedOut" if "attempts_made out < 3"
    using that unfolding final_outcome_def attempts_made_def by (simp split: if_splits)
  show "length (filter (\<lambda>ev. ev = SendVideo f cap)
               (snd (send_with_retries_as_video_or_doc video doc f cap))) \<le> 3"
    using sends_bound[of f cap video doc] by (rule conjunct1)
  show "length (filter (\<lambda>ev. ev = SendDocument f cap)
               (snd (send_with_retries_as_video_or_doc video doc f cap))) \<le> 3"
    using sends_bound[of f cap video doc] by (rule conjunct2)
qed

theorem delivery_retry_policy_witness:
  "send_with_retries_as_video_or_doc
       (\<lambda>n. if n = 2 then OtherFailure else TimedOut) (\<lambda>n. TimedOut) ''clip.mp4'' ''Clip''
     = (TimedOut,
        [SendAction,
         SendVideo ''clip.mp4'' ''Clip'', Sleep 2, SendVideo ''clip.mp4'' ''Clip'', Sleep 4,
         SendVideo ''clip.mp4'' ''Clip'',
         SendDocument ''clip.mp4'' ''Clip'', Sleep 2, SendDocument ''clip.mp4'' ''Clip'', Sleep 4,
         SendDocument ''clip.mp4'' ''Clip''])
   \<and> send_with_retries_as_video_or_doc
       (\<lambda>n. OtherFailure) (\<lambda>n. if n = 0 then TimedOut else Success) ''clip.mp4'' ''Clip''
     = (Success,
        [SendAction, SendVideo ''clip.mp4'' ''Clip'',
         SendDocument ''clip.mp4'' ''Clip'', Sleep 2, SendDocument ''clip.mp4'' ''Clip''])
   \<and> send_with_retries_as_video_or_doc
       (\<lambda>n. if n = 0 then TimedOut else Success) (\<lambda>n. Success) ''clip.mp4'' ''Clip''
     = (Success,
        [SendAction, SendVideo ''clip.mp4'' ''Clip'', Sleep 2, SendVideo ''clip.mp4'' ''Clip''])
   \<and> (0::nat) < attempts_made (\<lambda>n. TimedOut) - 1
   \<and> attempts_made (\<lambda>n. Success) < 3"
proof -
  note t1 = delivery_retry_policy[of "\<lambda>n. if n = 2 then OtherFailure else TimedOut"
      "\<lambda>n. TimedOut" "''clip.mp4''" "''Clip''" "\<lambda>n. TimedOut"]
  note t2 = delivery_retry_policy[of "\<lambda>n. OtherFailure"
      "\<lambda>n. if n = 0 then TimedOut else Success" "''clip.mp4''" "''Clip''" "\<lambda>n. Success"]
  note t3 = delivery_retry_policy[of "\<lambda>n. if n = 0 then TimedOut else Success"
      "\<lambda>n. Success" "''clip.mp4''" "''Clip''" "\<lambda>n. Success"]
  have h1: "(0::nat) < attempts_made (\<lambda>n. TimedOut) - 1"
    by (simp add: attempts_made_def)
  have h2: "attempts_made (\<lambda>n. Success) < 3"
    by (simp add: attempts_made_def)
  from t1 h1 have "(\<lambda>n::nat. TimedOut) 0 = TimedOut"
    by blast
  from t2 h2 have "final_outcome (\<lambda>n. Success) \<noteq> TimedOut"
    by blast
  from t1 have c1: "send_with_retries_as_video_or_doc
       (\<lambda>n. if n = 2 then OtherFailure else TimedOut) (\<lambda>n. TimedOut) ''clip.mp4'' ''Clip''
     = spec_delivery (\<lambda>n. if n = 2 then OtherFailure else TimedOut) (\<lambda>n. TimedOut)
         ''clip.mp4'' ''Clip''"
    by (rule conjunct1)
  from t2 have c2: "send_with_retries_as_video_or_doc
       (\<lambda>n. OtherFailure) (\<lambda>n. if n = 0 then TimedOut else Success) ''clip.mp4'' ''Clip''
     = spec_delivery (\<lambda>n. OtherFailure) (\<lambda>n. if n = 0 then TimedOut else Success)
         ''clip.mp4'' ''Clip''"
    by (rule conjunct1)
  from t3 have c3: "send_with_retries_as_video_or_doc
       (\<lambda>n. if n = 0 then TimedOut else Success) (\<lambda>n. Success) ''clip.mp4'' ''Clip''
     = spec_delivery (\<lambda>n. if n = 0 then TimedOut else Success) (\<lambda>n. Success)
         ''clip.mp4'' ''Clip''"
    by (rule conjunct1)
  show ?thesis
    unfolding c1 c2 c3 spec_delivery_def spec_retry_trace_cases final_outcome_cases
    using h1 h2 by simp
qed

section \<open>Properties of the selection handler\<close>

lemma delete_absent: "map_of store t = None \<Longrightarrow> AList.delete t store = store"
  by (simp add: map_of_eq_None_iff)

lemma pop_job_absent: "map_of store t = None \<Longrightarrow> pop_job store t = (None, store)"
  by (simp add: pop_job_def dict_pop_def delete_absent)

lemma pop_job_present:
  "map_of store t = Some j \<Longrightarrow>
     pop_job store t = (Some j, filter (\<lambda>p. fst p \<noteq> t) store)"
  by (simp add: pop_job_def dict_pop_def delete_filter)

lemma map_of_popped: "map_of (snd (pop_job store t)) t = None"
  by (auto simp add: pop_job_def dict_pop_def map_of_eq_None_iff delete_filter)

lemma fetches_simps:
  "fetches [] = []"
  "fetches (Answer # evs) = fetches evs"
  "fetches (Edit m # evs) = fetches evs"
  by (simp_all add: fetches_def)

lemma cleanups_simps:
  "cleanups d [] = 0"
  "cleanups d (Answer # evs) = cleanups d evs"
  "cleanups d (Edit m # evs) = cleanups d evs"
  by (simp_all add: cleanups_def)

lemma absent_token_expired:
  assumes p: "split_max (CHR ''|'') 2 data = [''dl'', t, mode]"
    and a: "map_of store t = None"
  shows "on_download_choice e store (Some (Some data)) =
     (if answer_ok e
      then (store, if edit_ok e SelectionExpired then Returned else Raised,
            [Answer, Edit SelectionExpired])
      else (store, Raised, [Answer]))"
  unfolding on_download_choice_def
  by (simp add: p pop_job_absent[OF a])

text \<open>
  C7: taking a token that is not a key returns nothing and leaves the registry as it
  is. Taking a token that is a key returns its job and removes the entry, the other
  entries staying in their order. After a take the token is not a key, so a second take
  of it returns nothing. A selection whose token is not a key, whatever the reason,
  leaves the registry unchanged, fetches nothing, and, once the query is acknowledged,
  does nothing but report that the selection has expired.
\<close>

theorem pop_job_take:
  "(map_of store t = None \<longrightarrow> pop_job store t = (None, store))
   \<and> (map_of store t = Some j \<longrightarrow>
        pop_job store t = (Some j, filter (\<lambda>p. fst p \<noteq> t) store))
   \<and> map_of (snd (pop_job store t)) t = None
   \<and> fst (pop_job (snd (pop_job store t)) t) = None
   \<and> (split_max (CHR ''|'') 2 data = [''dl'', t, mode] \<and> map_of store t = None \<longrightarrow>
        fst (on_download_choice e store (Some (Some data))) = store
        \<and> fetches (snd (snd (on_download_choice e store (Some (Some data))))) = []
        \<and> (answer_ok e \<longrightarrow>
             on_download_choice e store (Some (Some data)) =
               (store, if edit_ok e SelectionExpired then Returned else Raised,
                [Answer, Edit SelectionExpired])))"
proof (intro conjI impI)
  show "pop_job store t = (None, store)" if "map_of store t = None"
    using that by (rule pop_job_absent)
  show "pop_job store t = (Some j, filter (\<lambda>p. fst p \<noteq> t) store)" if "map_of store t = Some j"
    using that by (rule pop_job_present)
  show m: "map_of (snd (pop_job store t)) t = None"
    by (rule map_of_popped)
  show "fst (pop_job (snd (pop_job store t)) t) = None"
    by (simp only: pop_job_absent[OF m] fst_conv)
next
  assume h: "split_max (CHR ''|'') 2 data = [''dl'', t, mode] \<and> map_of store t = None"
  then have p: "split_max (CHR ''|'') 2 data = [''dl'', t, mode]"
    and a: "map_of store t = None"
    by (rule conjunct1, rule conjunct2)
  note r = absent_token_expired[OF p a, of e]
  show "fst (on_download_choice e store (Some (Some data))) = store"
    unfolding r by simp
  show "fetches (snd (snd (on_download_choice e store (Some (Some data))))) = []"
    unfolding r by (simp add: fetches_simps)
  show "on_download_choice e store (Some (Some data)) =
          (store, if edit_ok e SelectionExpired then Returned else Raised,
           [Answer, Edit SelectionExpired])" if "answer_ok e"
    unfolding r using that by simp
qed

theorem pop_job_take_witness:
  "pop_job [(''tok'', clip_job)] ''tok'' = (Some clip_job, [])
   \<and> pop_job [] ''tok'' = (None, [])
   \<and> on_download_choice calm [] (Some (Some ''dl|tok|h720''))
       = ([], Returned, [Answer, Edit SelectionExpired])
   \<and> fetches (snd (snd (on_download_choice calm [] (Some (Some ''dl|tok|h720''))))) = []"
proof -
  have p: "split_max (CHR ''|'') 2 ''dl|tok|h720'' = [''dl'', ''tok'', ''h720'']"
    by code_simp
  have m1: "map_of [(''tok'', clip_job)] ''tok'' = Some clip_job"
    by simp
  have m0: "map_of ([] :: store) ''tok'' = None"
    by simp
  have a: "answer_ok calm" "edit_ok calm SelectionExpired"
    by (simp_all add: calm_def)
  note t1 = pop_job_take[of "[(''tok'', clip_job)]" "''tok''" clip_job "''dl|tok|h720''" "''h720''" calm]
  note t0 = pop_job_take[of "[]" "''tok''" clip_job "''dl|tok|h720''" "''h720''" calm]
  from t1 m1 have "pop_job [(''tok'', clip_job)] ''tok''
      = (Some clip_job, filter (\<lambda>p. fst p \<noteq> ''tok'') [(''tok'', clip_job)])"
    by blast
  then have c1: "pop_job [(''tok'', clip_job)] ''tok'' = (Some clip_job, [])"
    by simp
  from t0 m0 have c2: "pop_job [] ''tok'' = (None, [])"
    by blast
  from t0 p m0 a(1) have "on_download_choice calm [] (Some (Some ''dl|tok|h720''))
       = ([], if edit_ok calm SelectionExpired then Returned else Raised,
          [Answer, Edit SelectionExpired])"
    by blast
  then have c3: "on_download_choice calm [] (Some (Some ''dl|tok|h720''))
       = ([], Returned, [Answer, Edit SelectionExpired])"
    using a(2) by simp
  from t0 p m0
  have c4: "fetches (snd (snd (on_download_choice calm [] (Some (Some ''dl|tok|h720''))))) = []"
    by blast
  from c1 c2 c3 c4 show ?thesis by blast
qed

section \<open>Properties of the payload parser\<close>

lemma count_sep_absent: "sep \<notin> set s \<Longrightarrow> filter (\<lambda>c. c = sep) s = []"
  by (induction s) auto

lemma count_sep_present:
  "sep \<in> set s \<Longrightarrow>
     length (filter (\<lambda>c. c = sep) s)
       = Suc (length (filter (\<lambda>c. c = sep) (tl (dropWhile (\<lambda>c. c \<noteq> sep) s))))"
  by (induction s) auto

lemma length_split_max:
  "length (split_max sep n s) = min (Suc n) (Suc (length (filter (\<lambda>c. c = sep) s)))"
proof (induction n arbitrary: s)
  case 0
  show ?case by simp
next
  case (Suc n)
  show ?case
  proof (cases "sep \<in> set s")
    case True
    then show ?thesis
      using Suc[of "tl (dropWhile (\<lambda>c. c \<noteq> sep) s)"] count_sep_present[OF True]
      by simp
  next
    case False
    then show ?thesis
      by (simp add: count_sep_absent)
  qed
qed

lemma length_split_all: "length (split_all s) = Suc (length (filter (\<lambda>c. c = CHR ''|'') s))"
proof -
  have "length (filter (\<lambda>c. c = CHR ''|'') s) \<le> length s"
    by (rule length_filter_le)
  then show ?thesis
    unfolding split_all_def length_split_max by simp
qed

lemma length_split_two: "length (split_max (CHR ''|'') 2 s) = min 3 (length (split_all s))"
  unfolding length_split_all length_split_max by simp

lemma takeWhile_absent: "sep \<notin> set s \<Longrightarrow> takeWhile (\<lambda>c. c \<noteq> sep) s = s"
  by (induction s) auto

lemma hd_split_max: "hd (split_max sep n s) = (if n = 0 then s else takeWhile (\<lambda>c. c \<noteq> sep) s)"
  by (cases n) (simp_all add: takeWhile_absent)

lemma hd_split_all: "hd (split_all s) = takeWhile (\<lambda>c. c \<noteq> CHR ''|'') s"
  unfolding split_all_def hd_split_max by (cases s) simp_all

lemma hd_split_two: "hd (split_max (CHR ''|'') 2 s) = hd (split_all s)"
  unfolding hd_split_all hd_split_max by simp

lemma rejected_shape:
  assumes "length xs \<noteq> 3 \<or> hd xs \<noteq> ''dl''"
  shows "(case xs of
            [tag, token, mode] \<Rightarrow> if tag \<noteq> ''dl'' then G else F tag token mode
          | _ \<Rightarrow> G) = G"
  using assms by (auto split: list.split)

lemma malformed_rejected:
  assumes "length (split_all s) < 3 \<or> hd (split_all s) \<noteq> ''dl''"
  shows "on_download_choice e store (Some (Some s)) =
     (if answer_ok e
      then (store, if edit_ok e InvalidButtonData then Returned else Raised,
            [Answer, Edit InvalidButtonData])
      else (store, Raised, [Answer]))"
proof -
  define xs where "xs = split_max (CHR ''|'') 2 s"
  have "length xs \<noteq> 3 \<or> hd xs \<noteq> ''dl''"
    using assms unfolding xs_def length_split_two hd_split_two by auto
  note r = rejected_shape[OF this]
  show ?thesis
    unfolding on_download_choice_def
    by (simp add: xs_def[symmetric] r)
qed

text \<open>
  C8, as the code has it. The payload is cut at its first two separators only, so a
  payload of more than three fields has the shape the handler expects, the fields after
  the second separator being its mode. A payload of fewer than three fields, or one
  whose first field is not \<open>dl\<close>, changes nothing: the registry is as before, no directory
  is released and nothing is fetched; once the query is acknowledged, the handler does
  nothing but report invalid button data. A query without data is handled as the empty
  payload.
\<close>

theorem malformed_payload_rejected:
  "length (split_max (CHR ''|'') 2 s) = min 3 (length (split_all s))
   \<and> on_download_choice e store (Some None) = on_download_choice e store (Some (Some []))
   \<and> (length (split_all s) < 3 \<or> hd (split_all s) \<noteq> ''dl'' \<longrightarrow>
        fst (on_download_choice e store (Some (Some s))) = store
        \<and> cleanups d (snd (snd (on_download_choice e store (Some (Some s))))) = 0
        \<and> fetches (snd (snd (on_download_choice e store (Some (Some s))))) = []
        \<and> (answer_ok e \<longrightarrow>
             on_download_choice e store (Some (Some s)) =
               (store, if edit_ok e InvalidButtonData then Returned else Raised,
                [Answer, Edit InvalidButtonData])))"
proof (intro conjI impI)
  show "length (split_max (CHR ''|'') 2 s) = min 3 (length (split_all s))"
    by (rule length_split_two)
  show "on_download_choice e store (Some None) = on_download_choice e store (Some (Some []))"
    unfolding on_download_choice_def by simp
next
  assume h: "length (split_all s) < 3 \<or> hd (split_all s) \<noteq> ''dl''"
  note r = malformed_rejected[OF h, of e store]
  show "fst (on_download_choice e store (Some (Some s))) = store"
    unfolding r by simp
  show "cleanups d (snd (snd (on_download_choice e store (Some (Some s))))) = 0"
    unfolding r by (simp add: cleanups_simps)
  show "fetches (snd (snd (on_download_choice e store (Some (Some s))))) = []"
    unfolding r by (simp add: fetches_simps)
  show "on_download_choice e store (Some (Some s)) =
          (store, if edit_ok e InvalidButtonData then Returned else Raised,
           [Answer, Edit InvalidButtonData])" if "answer_ok e"
    unfolding r using that by simp
qed

theorem malformed_payload_rejected_witness:
  "length (split_all ''dl|tok'') < 3
   \<and> on_download_choice calm [(''tok'', clip_job)] (Some (Some ''dl|tok''))
       = ([(''tok'', clip_job)], Returned, [Answer, Edit InvalidButtonData])
   \<and> hd (split_all ''xx|tok|best'') \<noteq> ''dl''
   \<and> on_download_choice calm [(''tok'', clip_job)] (Some (Some ''xx|tok|best''))
       = ([(''tok'', clip_job)], Returned, [Answer, Edit InvalidButtonData])
   \<and> cleanups 7 (snd (snd (on_download_choice calm [(''tok'', clip_job)]
        (Some (Some ''dl|tok''))))) = 0"
proof -
  have f1: "length (split_all ''dl|tok'') < 3"
    by code_simp
  have f2: "hd (split_all ''xx|tok|best'') \<noteq> ''dl''"
    by code_simp
  have a: "answer_ok calm" "edit_ok calm InvalidButtonData"
    by (simp_all add: calm_def)
  note t1 = malformed_payload_rejected[of "''dl|tok''" calm "[(''tok'', clip_job)]" 7]
  note t2 = malformed_payload_rejected[of "''xx|tok|best''" calm "[(''tok'', clip_job)]" 7]
  from t1 f1 a(1) have "on_download_choice calm [(''tok'', clip_job)] (Some (Some ''dl|tok''))
       = ([(''tok'', clip_job)], if edit_ok calm InvalidButtonData then Returned else Raised,
          [Answer, Edit InvalidButtonData])"
    by blast
  then have c1: "on_download_choice calm [(''tok'', clip_job)] (Some (Some ''dl|tok''))
       = ([(''tok'', clip_job)], Returned, [Answer, Edit InvalidButtonData])"
    using a(2) by simp
  from t2 f2 a(1) have "on_download_choice calm [(''tok'', clip_job)] (Some (Some ''xx|tok|best''))
       = ([(''tok'', clip_job)], if edit_ok calm InvalidButtonData then Returned else Raised,
          [Answer, Edit InvalidButtonData])"
    by blast
  then have c2: "on_download_choice calm [(''tok'', clip_job)] (Some (Some ''xx|tok|best''))
       = ([(''tok'', clip_job)], Returned, [Answer, Edit InvalidButtonData])"
    using a(2) by simp
  from t1 f1 have c3: "cleanups 7 (snd (snd (on_download_choice calm [(''tok'', clip_job)]
        (Some (Some ''dl|tok''))))) = 0"
    by blast
  from f1 c1 f2 c2 c3 show ?thesis by blast
qed

text \<open>
  C8, as the specification has it, fails on a payload of four fields whose first field
  is \<open>dl\<close> and whose second is a live token: the job is taken from the registry, the
  clip is fetched, and the directory is released.
\<close>

theorem malformed_payload_counterexample:
  "length (split_all ''dl|tok|best|x'') = 4
   \<and> on_download_choice calm [(''tok'', clip_job)] (Some (Some ''dl|tok|best|x''))
       = ([], Returned,
          [Answer, Edit Downloading,
           Fetch clip_url ''bestvideo*+bestaudio/best'' 7,
           SendAction, SendVideo ''clip123.mp4'' ''Clip'', Edit Done, Cleanup 7])"
  by code_simp

section \<open>Properties of the mode of a selection\<close>

lemma send_video_attempts_events:
  "set (snd (send_video_attempts video f cap as)) \<subseteq> insert (SendVideo f cap) (range Sleep)"
  by (induction as) (auto simp add: case_prod_beta split: outcome.split)

lemma send_document_attempts_events:
  "set (snd (send_document_attempts doc f cap as)) \<subseteq> insert (SendDocument f cap) (range Sleep)"
  by (induction as) (auto simp add: case_prod_beta split: outcome.split)

lemma send_with_retries_events:
  "set (snd (send_with_retries_as_video_or_doc video doc f cap))
     \<subseteq> {SendAction, SendVideo f cap, SendDocument f cap} \<union> range Sleep"
proof -
  obtain sent evs where v: "send_video_attempts video f cap [0, 1, 2] = (sent, evs)"
    by (cases "send_video_attempts video f cap [0, 1, 2]")
  obtain r evs' where d: "send_document_attempts doc f cap [0, 1, 2] = (r, evs')"
    by (cases "send_document_attempts doc f cap [0, 1, 2]")
  have v1: "set evs \<subseteq> insert (SendVideo f cap) (range Sleep)"
    using send_video_attempts_events[of video f cap "[0, 1, 2]"] unfolding v by simp
  have d1: "set evs' \<subseteq> insert (SendDocument f cap) (range Sleep)"
    using send_document_attempts_events[of doc f cap "[0, 1, 2]"] unfolding d by simp
  show ?thesis
    unfolding send_with_retries_as_video_or_doc_def v d
    using v1 d1 by auto
qed

lemma deliver_and_report_events:
  "set (deliver_and_report e f cap)
     \<subseteq> {SendAction, SendVideo f cap, SendDocument f cap,
         Edit Done, Edit SendFailed, Edit DownloadFailed} \<union> range Sleep"
proof -
  obtain r evs where s:
    "send_with_retries_as_video_or_doc (video_out e) (doc_out e) f cap = (r, evs)"
    by (cases "send_with_retries_as_video_or_doc (video_out e) (doc_out e) f cap")
  have s1: "set evs \<subseteq> {SendAction, SendVideo f cap, SendDocument f cap} \<union> range Sleep"
    using send_with_retries_events[of "video_out e" "doc_out e" f cap] unfolding s by simp
  show ?thesis
    unfolding deliver_and_report_def s
    using s1 by (auto simp add: Let_def)
qed

lemma fetch_and_send_events:
  assumes "ev \<in> set (fetch_and_send e u d c)"
  shows "ev = Fetch u (build_format_string c) d
         \<or> ev \<in> {SendAction, Edit NoData, Edit FileNotFound, Edit Done, Edit SendFailed,
                 Edit DownloadFailed}
         \<or> (\<exists>f cap. ev = SendVideo f cap \<or> ev = SendDocument f cap)
         \<or> (\<exists>n. ev = Sleep n)"
proof -
  have dr: "\<And>f cap. ev \<in> set (deliver_and_report e f cap) \<Longrightarrow>
      ev \<in> {SendAction, Edit Done, Edit SendFailed, Edit DownloadFailed}
      \<or> (\<exists>f cap. ev = SendVideo f cap \<or> ev = SendDocument f cap)
      \<or> (\<exists>n. ev = Sleep n)"
    using deliver_and_report_events by blast
  from assms show ?thesis
    unfolding fetch_and_send_def Let_def
    by (auto split: option.splits if_splits dest: dr)
qed

lemma fetch_and_send_no_cleanup: "cleanups d' (fetch_and_send e u d c) = 0"
proof -
  have "Cleanup d' \<notin> set (fetch_and_send e u d c)"
    using fetch_and_send_events[of "Cleanup d'" e u d c] by auto
  then have "filter (\<lambda>ev. ev = Cleanup d') (fetch_and_send e u d c) = []"
    unfolding filter_empty_conv by blast
  then show ?thesis
    unfolding cleanups_def by simp
qed

lemma fetch_and_send_not_invalid: "Edit InvalidButtonData \<notin> set (fetch_and_send e u d c)"
  using fetch_and_send_events[of "Edit InvalidButtonData" e u d c] by auto

lemma fetch_and_send_first:
  "hd (fetch_and_send e u d c) = Fetch u (build_format_string c) d"
  unfolding fetch_and_send_def Let_def
  by (simp split: option.split)

lemma fetch_and_send_format:
  "build_format_string c = build_format_string c' \<Longrightarrow>
     fetch_and_send e u d c = fetch_and_send e u d c'"
  unfolding fetch_and_send_def by simp

lemma digits_ok_chars: "digits_ok s \<Longrightarrow> c \<in> set s \<Longrightarrow> py_isdigit c \<or> c = CHR ''_''"
  by (induction s rule: digits_ok.induct) (auto split: if_splits)

lemma set_strip: "c \<in> set s \<Longrightarrow> \<not> py_isspace c \<Longrightarrow> c \<in> set (strip s)"
proof -
  assume c: "c \<in> set s" and n: "\<not> py_isspace c"
  have k: "\<And>xs. c \<in> set xs \<Longrightarrow> c \<in> set (dropWhile py_isspace xs)"
  proof -
    fix xs assume "c \<in> set xs"
    then show "c \<in> set (dropWhile py_isspace xs)"
      using n by (induction xs) auto
  qed
  have "c \<in> set (rev (dropWhile py_isspace s))"
    using k[OF c] by simp
  then have "c \<in> set (dropWhile py_isspace (rev (dropWhile py_isspace s)))"
    by (rule k)
  then show ?thesis
    unfolding strip_def by simp
qed

lemma py_int_refuses:
  assumes c: "c \<in> set s"
    and n: "\<not> py_isdigit c" "\<not> py_isspace c"
      "c \<noteq> CHR ''+''" "c \<noteq> CHR ''-''" "c \<noteq> CHR ''_''"
  shows "py_int s = None"
proof -
  define t where "t = strip s"
  define body where
    "body = (if t \<noteq> [] \<and> (hd t = CHR ''-'' \<or> hd t = CHR ''+'') then tl t else t)"
  have ct: "c \<in> set t"
    unfolding t_def using c n(2) by (rule set_strip)
  have cb: "c \<in> set body"
  proof (cases t)
    case Nil
    with ct show ?thesis by simp
  next
    case (Cons a as)
    with ct n(3,4) show ?thesis
      unfolding body_def by auto
  qed
  have "\<not> digits_ok body"
    using digits_ok_chars[OF _ cb] n(1) n(5) by blast
  then show ?thesis
    unfolding py_int_def Let_def t_def[symmetric] body_def[symmetric] by simp
qed

lemma unusable_mode_best:
  assumes "\<not> prefix ''h'' mode \<or> py_int (drop 1 mode) = None \<or> py_int (drop 1 mode) = Some 0"
  shows "build_format_string (chosen_height mode) = ''bestvideo*+bestaudio/best''"
proof -
  have "chosen_height mode = None \<or> chosen_height mode = Some 0"
    using assms unfolding chosen_height_def by (auto split: option.split)
  then show ?thesis
    unfolding build_format_string_def by auto
qed

lemma best_mode: "build_format_string (chosen_height ''best'') = ''bestvideo*+bestaudio/best''"
  unfolding chosen_height_def build_format_string_def by simp

lemma selection_runs:
  assumes p: "split_max (CHR ''|'') 2 data = [''dl'', t, mode]"
    and l: "map_of store t = Some j"
  shows "on_download_choice e store (Some (Some data)) =
     (if \<not> answer_ok e then (store, Raised, [Answer])
      else if url j = [] then
        (if edit_ok e InternalError
         then (filter (\<lambda>p. fst p \<noteq> t) store, Returned,
               [Answer, Edit InternalError, Cleanup (tmpdir j)])
         else (filter (\<lambda>p. fst p \<noteq> t) store, Raised, [Answer, Edit InternalError]))
      else if \<not> edit_ok e Downloading then
        (filter (\<lambda>p. fst p \<noteq> t) store, Raised, [Answer, Edit Downloading])
      else
        (filter (\<lambda>p. fst p \<noteq> t) store, Returned,
         [Answer, Edit Downloading]
         @ fetch_and_send e (url j) (tmpdir j) (chosen_height mode)
         @ [Cleanup (tmpdir j)]))"
  unfolding on_download_choice_def
  by (simp add: p pop_job_present[OF l])

text \<open>
  C10, amended. Take a payload whose first field is \<open>dl\<close>, whose second field is a live
  token, and whose mode either does not begin with \<open>h\<close>, or begins with \<open>h\<close> followed by
  a text that \<open>int\<close> refuses or reads as 0. Then the format expression is the one of mode
  \<open>best\<close>, and the handler does exactly what it does for the payload with mode \<open>best\<close>:
  once the query is acknowledged the job is removed from the registry, the request is
  not reported as invalid, and, for a job with a URL and when the "downloading"
  message can be shown, the clip is fetched with the expression
  \<open>bestvideo*+bestaudio/best\<close>. A mode that begins with \<open>h\<close> followed by a text that \<open>int\<close>
  reads as another integer is height-constrained, whatever the text looks like. Among
  the texts of characters up to code point 255, to which strings are limited here,
  \<open>int\<close> refuses every text that has a character other than a digit \<open>0\<close> to \<open>9\<close>, a
  sign, an underscore or white space.
\<close>

theorem unusable_mode_proceeds_as_best:
  "((\<exists>c \<in> set s. \<not> py_isdigit c \<and> \<not> py_isspace c
        \<and> c \<noteq> CHR ''+'' \<and> c \<noteq> CHR ''-'' \<and> c \<noteq> CHR ''_'') \<longrightarrow> py_int s = None)
   \<and> (prefix ''h'' mode \<and> py_int (drop 1 mode) = Some n \<and> n \<noteq> 0 \<longrightarrow>
        build_format_string (chosen_height mode)
          = ''bestvideo*[height<=?'' @ str_int n @ '']+bestaudio/best[height<=?''
              @ str_int n @ '']'')
   \<and> (split_max (CHR ''|'') 2 data = [''dl'', t, mode] \<and> map_of store t = Some j
       \<and> (\<not> prefix ''h'' mode \<or> py_int (drop 1 mode) = None \<or> py_int (drop 1 mode) = Some 0)
       \<longrightarrow>
         build_format_string (chosen_height mode) = ''bestvideo*+bestaudio/best''
         \<and> build_format_string (chosen_height mode) = build_format_string (chosen_height ''best'')
         \<and> (split_max (CHR ''|'') 2 data' = [''dl'', t, ''best''] \<longrightarrow>
              on_download_choice e store (Some (Some data))
                = on_download_choice e store (Some (Some data')))
         \<and> Edit InvalidButtonData
              \<notin> set (snd (snd (on_download_choice e store (Some (Some data)))))
         \<and> (answer_ok e \<longrightarrow>
              fst (on_download_choice e store (Some (Some data)))
                = filter (\<lambda>p. fst p \<noteq> t) store)
         \<and> (answer_ok e \<and> url j \<noteq> [] \<and> edit_ok e Downloading \<longrightarrow>
              take 3 (snd (snd (on_download_choice e store (Some (Some data)))))
                = [Answer, Edit Downloading,
                   Fetch (url j) ''bestvideo*+bestaudio/best'' (tmpdir j)]))"
proof (intro conjI impI)
  assume "\<exists>c \<in> set s. \<not> py_isdigit c \<and> \<not> py_isspace c
        \<and> c \<noteq> CHR ''+'' \<and> c \<noteq> CHR ''-'' \<and> c \<noteq> CHR ''_''"
  then obtain c where "c \<in> set s" "\<not> py_isdigit c" "\<not> py_isspace c"
    "c \<noteq> CHR ''+''" "c \<noteq> CHR ''-''" "c \<noteq> CHR ''_''"
    by blast
  then show "py_int s = None"
    by (rule py_int_refuses)
next
  assume "prefix ''h'' mode \<and> py_int (drop 1 mode) = Some n \<and> n \<noteq> 0"
  then have "chosen_height mode = Some n" and "n \<noteq> 0"
    unfolding chosen_height_def by auto
  then show "build_format_string (chosen_height mode)
          = ''bestvideo*[height<=?'' @ str_int n @ '']+bestaudio/best[height<=?''
              @ str_int n @ '']''"
    unfolding build_format_string_def by simp
next
  assume h: "split_max (CHR ''|'') 2 data = [''dl'', t, mode] \<and> map_of store t = Some j
       \<and> (\<not> prefix ''h'' mode \<or> py_int (drop 1 mode) = None \<or> py_int (drop 1 mode) = Some 0)"
  from h have p: "split_max (CHR ''|'') 2 data = [''dl'', t, mode]"
    by (rule conjunct1)
  from h have l: "map_of store t = Some j"
    by (rule conjunct2[THEN conjunct1])
  from h have u: "\<not> prefix ''h'' mode \<or> py_int (drop 1 mode) = None
      \<or> py_int (drop 1 mode) = Some 0"
    by (rule conjunct2[THEN conjunct2])
  note b = unusable_mode_best[OF u]
  show "build_format_string (chosen_height mode) = ''bestvideo*+bestaudio/best''"
    by (rule b)
  show bb: "build_format_string (chosen_height mode) = build_format_string (chosen_height ''best'')"
    unfolding b best_mode ..
  note fs = fetch_and_send_format[OF bb]
  note r = selection_runs[OF p l, of e]
  define fas where "fas = fetch_and_send e (url j) (tmpdir j) (chosen_height mode)"
  have f1: "hd fas = Fetch (url j) ''bestvideo*+bestaudio/best'' (tmpdir j)"
    unfolding fas_def fetch_and_send_first b ..
  have f2: "fas \<noteq> []"
    unfolding fas_def fetch_and_send_def Let_def by (simp split: option.split)
  have f3: "Edit InvalidButtonData \<notin> set fas"
    unfolding fas_def by (rule fetch_and_send_not_invalid)
  show "on_download_choice e store (Some (Some data))
          = on_download_choice e store (Some (Some data'))"
    if p': "split_max (CHR ''|'') 2 data' = [''dl'', t, ''best'']"
    unfolding r selection_runs[OF p' l, of e] fs ..
  show "Edit InvalidButtonData \<notin> set (snd (snd (on_download_choice e store (Some (Some data)))))"
    unfolding r fas_def[symmetric] using f3 by simp
  show "fst (on_download_choice e store (Some (Some data))) = filter (\<lambda>p. fst p \<noteq> t) store"
    if "answer_ok e"
    unfolding r using that by simp
  show "take 3 (snd (snd (on_download_choice e store (Some (Some data)))))
          = [Answer, Edit Downloading, Fetch (url j) ''bestvideo*+bestaudio/best'' (tmpdir j)]"
    if a: "answer_ok e \<and> url j \<noteq> [] \<and> edit_ok e Downloading"
  proof -
    obtain x xs where c: "fas = x # xs"
      using f2 by (cases fas) simp_all
    from f1 have x: "x = Fetch (url j) ''bestvideo*+bestaudio/best'' (tmpdir j)"
      unfolding c by simp
    show ?thesis
      unfolding r fas_def[symmetric] using a by (simp add: c x)
  qed
qed

theorem unusable_mode_proceeds_as_best_witness:
  "py_int ''x'' = None
   \<and> build_format_string (chosen_height ''hx'') = ''bestvideo*+bestaudio/best''
   \<and> build_format_string (chosen_height ''h0'') = ''bestvideo*+bestaudio/best''
   \<and> build_format_string (chosen_height ''h 720'')
       = ''bestvideo*[height<=?720]+bestaudio/best[height<=?720]''
   \<and> on_download_choice calm [(''tok'', clip_job)] (Some (Some ''dl|tok|best|x''))
       = on_download_choice calm [(''tok'', clip_job)] (Some (Some ''dl|tok|best''))
   \<and> fst (on_download_choice calm [(''tok'', clip_job)] (Some (Some ''dl|tok|h0''))) = []
   \<and> take 3 (snd (snd (on_download_choice calm [(''tok'', clip_job)]
        (Some (Some ''dl|tok|hx'')))))
       = [Answer, Edit Downloading, Fetch clip_url ''bestvideo*+bestaudio/best'' 7]"
proof -
  have x: "\<exists>c \<in> set ''x''. \<not> py_isdigit c \<and> \<not> py_isspace c
        \<and> c \<noteq> CHR ''+'' \<and> c \<noteq> CHR ''-'' \<and> c \<noteq> CHR ''_''"
    by (simp add: py_isdigit_def py_isspace_def)
  have p1: "split_max (CHR ''|'') 2 ''dl|tok|hx'' = [''dl'', ''tok'', ''hx'']"
    by code_simp
  have p2: "split_max (CHR ''|'') 2 ''dl|tok|h0'' = [''dl'', ''tok'', ''h0'']"
    by code_simp
  have p3: "split_max (CHR ''|'') 2 ''dl|tok|best|x'' = [''dl'', ''tok'', ''best|x'']"
    by code_simp
  have p4: "split_max (CHR ''|'') 2 ''dl|tok|best'' = [''dl'', ''tok'', ''best'']"
    by code_simp
  have l: "map_of [(''tok'', clip_job)] ''tok'' = Some clip_job"
    by simp
  have u1: "py_int (drop 1 ''hx'') = None"
    by code_simp
  have u2: "py_int (drop 1 ''h0'') = Some 0"
    by code_simp
  have u3: "\<not> prefix ''h'' ''best|x''"
    by simp
  have a: "answer_ok calm" "edit_ok calm Downloading"
    by (simp_all add: calm_def)
  have j: "url clip_job \<noteq> []" "url clip_job = clip_url" "tmpdir clip_job = 7"
    by (simp_all add: clip_job_def clip_url_def)
  note t1 = unusable_mode_proceeds_as_best[where s = "''x''" and data = "''dl|tok|hx''"
      and t = "''tok''" and mode = "''hx''" and store = "[(''tok'', clip_job)]"
      and j = clip_job and data' = "''dl|tok|best''" and e = calm]
  note t2 = unusable_mode_proceeds_as_best[where s = "''x''" and data = "''dl|tok|h0''"
      and t = "''tok''" and mode = "''h0''" and store = "[(''tok'', clip_job)]"
      and j = clip_job and data' = "''dl|tok|best''" and e = calm]
  note t3 = unusable_mode_proceeds_as_best[where s = "''x''" and data = "''dl|tok|best|x''"
      and t = "''tok''" and mode = "''best|x''" and store = "[(''tok'', clip_job)]"
      and j = clip_job and data' = "''dl|tok|best''" and e = calm]
  have u4: "prefix ''h'' ''h 720''" "py_int (drop 1 ''h 720'') = Some 720" "(720::int) \<noteq> 0"
    by code_simp+
  have s720: "str_int 720 = ''720''"
    by code_simp
  note t4 = unusable_mode_proceeds_as_best[where s = "''x''" and data = "''dl|tok|h 720''"
      and t = "''tok''" and mode = "''h 720''" and n = 720 and store = "[(''tok'', clip_job)]"
      and j = clip_job and data' = "''dl|tok|best''" and e = calm]
  from t4 u4 have "build_format_string (chosen_height ''h 720'')
       = ''bestvideo*[height<=?'' @ str_int 720 @ '']+bestaudio/best[height<=?''
           @ str_int 720 @ '']''"
    by blast
  then have c6: "build_format_string (chosen_height ''h 720'')
       = ''bestvideo*[height<=?720]+bestaudio/best[height<=?720]''"
    unfolding s720 by simp
  from t1 x have c0: "py_int ''x'' = None"
    by blast
  from t1 p1 l u1
  have c1: "build_format_string (chosen_height ''hx'') = ''bestvideo*+bestaudio/best''"
    by blast
  from t2 p2 l u2
  have c2: "build_format_string (chosen_height ''h0'') = ''bestvideo*+bestaudio/best''"
    by blast
  from t3 p3 l u3 p4
  have c3: "on_download_choice calm [(''tok'', clip_job)] (Some (Some ''dl|tok|best|x''))
       = on_download_choice calm [(''tok'', clip_job)] (Some (Some ''dl|tok|best''))"
    by blast
  from t2 p2 l u2 a(1)
  have "fst (on_download_choice calm [(''tok'', clip_job)] (Some (Some ''dl|tok|h0'')))
      = filter (\<lambda>p. fst p \<noteq> ''tok'') [(''tok'', clip_job)]"
    by blast
  then have c4: "fst (on_download_choice calm [(''tok'', clip_job)]
      (Some (Some ''dl|tok|h0''))) = []"
    by simp
  from t1 p1 l u1 a j(1)
  have "take 3 (snd (snd (on_download_choice calm [(''tok'', clip_job)]
        (Some (Some ''dl|tok|hx'')))))
       = [Answer, Edit Downloading,
          Fetch (url clip_job) ''bestvideo*+bestaudio/best'' (tmpdir clip_job)]"
    by blast
  then have c5: "take 3 (snd (snd (on_download_choice calm [(''tok'', clip_job)]
        (Some (Some ''dl|tok|hx'')))))
       = [Answer, Edit Downloading, Fetch clip_url ''bestvideo*+bestaudio/best'' 7]"
    unfolding j(2) j(3) .
  from c0 c1 c2 c6 c3 c4 c5 show ?thesis by blast
qed

text \<open>
  C10, as it is stated, fails on the mode \<open>h 720\<close>, with a blank after the \<open>h\<close>: it is
  neither \<open>best\<close> nor \<open>h\<close> followed by a decimal integer, but \<open>int\<close> skips the blank and
  reads 720, so the clip is fetched under the limit of 720 and not as for \<open>best\<close>.
\<close>

theorem unusable_mode_counterexample:
  "\<not> spec_mode ''h 720''
   \<and> on_download_choice calm [(''tok'', clip_job)] (Some (Some ''dl|tok|h 720''))
       = ([], Returned,
          [Answer, Edit Downloading,
           Fetch clip_url ''bestvideo*[height<=?720]+bestaudio/best[height<=?720]'' 7,
           SendAction, SendVideo ''clip123.mp4'' ''Clip'', Edit Done, Cleanup 7])
   \<and> on_download_choice calm [(''tok'', clip_job)] (Some (Some ''dl|tok|h 720''))
       \<noteq> on_download_choice calm [(''tok'', clip_job)] (Some (Some ''dl|tok|best''))"
  by code_simp

section \<open>Release of the scratch directory\<close>

lemma cleanups_append: "cleanups d (evs @ evs') = cleanups d evs + cleanups d evs'"
  unfolding cleanups_def by simp

lemma cleanups_Cleanup: "cleanups d (Cleanup d' # evs) = (if d' = d then 1 else 0) + cleanups d evs"
  unfolding cleanups_def by auto

text \<open>
  A selection of a live token whose job has a URL releases the directory of the job
  once, provided that the query can be acknowledged and the "downloading" message can
  be shown: from there on everything happens under the \<open>finally\<close> block.
\<close>

lemma selection_releases_once:
  assumes p: "split_max (CHR ''|'') 2 data = [''dl'', t, mode]"
    and l: "map_of store t = Some j"
    and a: "answer_ok e" "url j \<noteq> []" "edit_ok e Downloading"
  shows "cleanups (tmpdir j) (snd (snd (on_download_choice e store (Some (Some data))))) = 1"
proof -
  define fas where "fas = fetch_and_send e (url j) (tmpdir j) (chosen_height mode)"
  have f: "cleanups (tmpdir j) fas = 0"
    unfolding fas_def by (rule fetch_and_send_no_cleanup)
  show ?thesis
    unfolding selection_runs[OF p l, of e] fas_def[symmetric]
    using a f by (simp add: cleanups_append cleanups_simps cleanups_Cleanup)
qed

text \<open>
  When the "downloading" message cannot be shown, the job has left the registry and
  its directory is not released.
\<close>

lemma selection_leaks:
  assumes p: "split_max (CHR ''|'') 2 data = [''dl'', t, mode]"
    and l: "map_of store t = Some j"
    and a: "answer_ok e" "url j \<noteq> []" "\<not> edit_ok e Downloading"
  shows "on_download_choice e store (Some (Some data))
     = (filter (\<lambda>p. fst p \<noteq> t) store, Raised, [Answer, Edit Downloading])"
  unfolding selection_runs[OF p l, of e] using a by simp

text \<open>
  A probe that fails releases the directory once, provided that the error message can
  be shown and \<open>cleanup()\<close> does not raise.
\<close>

lemma probe_failure_releases_once:
  assumes r: "reply_ok e Analysing"
    and x: "extractor e = None \<or> extractor e = Some None"
    and a: "edit_ok e AnalysisError" "cleanup_ok e"
  shows "fst (handle_text e store (Url u)) = store
         \<and> cleanups (fresh_tmpdir e) (snd (snd (handle_text e store (Url u)))) = 1"
  using x
proof
  assume "extractor e = None"
  then show ?thesis
    unfolding handle_text_def analysis_failed_def Let_def
    using r a by (simp add: cleanups_def)
next
  assume "extractor e = Some None"
  then show ?thesis
    unfolding handle_text_def analysis_failed_def Let_def
    using r a by (simp add: cleanups_def)
qed

text \<open>
  C1 does not hold of the code. In the first run the probe succeeds and the job is
  registered, then the call that shows the menu raises: the handler releases the
  directory and leaves the job in the registry, and the selection that follows
  releases the same directory again. In the second run the call that shows
  "downloading" raises: the job has been removed from the registry and its directory
  is not released.
\<close>

theorem scratch_release_failing_runs:
  "handle_text menu_edit_fails [] (Url clip_url)
     = ([(''tok'', clip_job)], Returned,
        [Reply Analysing, MkTmp 7, Probe clip_url 7,
         Edit (Menu (build_buttons ''tok'' [360, 720, 1080])),
         Edit AnalysisError, Cleanup 7])
   \<and> on_download_choice calm [(''tok'', clip_job)] (Some (Some ''dl|tok|best''))
     = ([], Returned,
        [Answer, Edit Downloading, Fetch clip_url ''bestvideo*+bestaudio/best'' 7,
         SendAction, SendVideo ''clip123.mp4'' ''Clip'', Edit Done, Cleanup 7])
   \<and> cleanups 7
        (snd (snd (handle_text menu_edit_fails [] (Url clip_url)))
         @ snd (snd (on_download_choice calm
                  (fst (handle_text menu_edit_fails [] (Url clip_url)))
                  (Some (Some ''dl|tok|best''))))) = 2
   \<and> on_download_choice downloading_edit_fails [(''tok'', clip_job)]
        (Some (Some ''dl|tok|best''))
     = ([], Raised, [Answer, Edit Downloading])
   \<and> cleanups 7
        (snd (snd (on_download_choice downloading_edit_fails [(''tok'', clip_job)]
                  (Some (Some ''dl|tok|best''))))) = 0"
  by code_simp

end
